theory Spec2Isabelle
  imports Complex_Main
begin

section \<open>JavaScript numbers\<close>

text \<open>
  Every number of \<^verbatim>\<open>server.js\<close> is an IEEE-754 binary64 value: 53 bits of precision,
  exponents from \<open>-1022\<close> to \<open>1023\<close>, round to nearest with ties to even after every
  operation. A finite number is modelled by the rational it denotes; \<open>fl\<close> rounds a
  rational to the nearest binary64 value. Negative zero is identified with zero: the
  handlers never divide by a ratio or by a page dimension, only by an image dimension
  and by the literal \<open>2\<close>, so no operation of theirs tells the two zeros apart.
\<close>

function bitlen :: "int \<Rightarrow> nat" where
  "bitlen a = (if a \<le> 0 then 0 else Suc (bitlen (a div 2)))"
  by pat_completeness auto
termination
  by (relation "measure nat") auto

declare bitlen.simps [simp del]

text \<open>\<open>ilog2 q\<close> is \<open>\<lfloor>log\<^sub>2 q\<rfloor>\<close> for a positive rational \<open>q\<close>.\<close>

definition ilog2 :: "rat \<Rightarrow> int" where
  "ilog2 q = (let (a, b) = quotient_of q;
                  k = int (bitlen a) - int (bitlen b)
              in if 2 powi k \<le> q then k else k - 1)"

definition round_half_even :: "rat \<Rightarrow> int" where
  "round_half_even r =
     (let f = \<lfloor>r\<rfloor>; d = r - of_int f
      in if d < 1 / 2 then f
         else if 1 / 2 < d then f + 1
         else if even f then f else f + 1)"

text \<open>The spacing of binary64 values around a positive \<open>q\<close> (subnormal below \<open>2\<^sup>-\<^sup>1\<^sup>0\<^sup>2\<^sup>2\<close>).\<close>

definition ulp :: "rat \<Rightarrow> rat" where
  "ulp q = 2 powi (max (ilog2 q) (- 1022) - 52)"

definition fl_pos :: "rat \<Rightarrow> rat" where
  "fl_pos q = of_int (round_half_even (q / ulp q)) * ulp q"

definition fl :: "rat \<Rightarrow> rat" where
  "fl q = (if q = 0 then 0 else if 0 < q then fl_pos q else - fl_pos (- q))"

datatype js_number = Num rat | PosInf | NegInf | NaN

text \<open>
  Rounding with overflow: a rounded value whose exponent exceeds 1023, that is one of
  magnitude \<open>2\<^sup>1\<^sup>0\<^sup>2\<^sup>4\<close> or more, is an infinity.
\<close>

definition js_round :: "rat \<Rightarrow> js_number" where
  "js_round q =
     (let r = fl q
      in if r = 0 then Num 0
         else if 1024 \<le> ilog2 \<bar>r\<bar> then (if 0 < r then PosInf else NegInf)
         else Num r)"

fun sign_of :: "js_number \<Rightarrow> int" where
  "sign_of (Num q) = (if q = 0 then 0 else if 0 < q then 1 else - 1)"
| "sign_of PosInf = 1"
| "sign_of NegInf = - 1"
| "sign_of NaN = 0"

definition inf_of_sign :: "int \<Rightarrow> js_number" where
  "inf_of_sign s = (if s = 0 then NaN else if 0 < s then PosInf else NegInf)"

fun js_neg :: "js_number \<Rightarrow> js_number" where
  "js_neg (Num q) = Num (- q)"
| "js_neg PosInf = NegInf"
| "js_neg NegInf = PosInf"
| "js_neg NaN = NaN"

fun js_mul :: "js_number \<Rightarrow> js_number \<Rightarrow> js_number" where
  "js_mul NaN b = NaN"
| "js_mul a NaN = NaN"
| "js_mul (Num p) (Num q) = js_round (p * q)"
| "js_mul a b = inf_of_sign (sign_of a * sign_of b)"

fun js_add :: "js_number \<Rightarrow> js_number \<Rightarrow> js_number" where
  "js_add NaN b = NaN"
| "js_add a NaN = NaN"
| "js_add (Num p) (Num q) = js_round (p + q)"
| "js_add PosInf NegInf = NaN"
| "js_add NegInf PosInf = NaN"
| "js_add PosInf b = PosInf"
| "js_add NegInf b = NegInf"
| "js_add a b = b"

definition js_sub :: "js_number \<Rightarrow> js_number \<Rightarrow> js_number" where
  "js_sub a b = js_add a (js_neg b)"

text \<open>
  Division. A zero divisor is the positive zero (the handler's divisors are an image
  dimension, a non-negative integer, and the literal \<open>2\<close>).
\<close>

fun js_div :: "js_number \<Rightarrow> js_number \<Rightarrow> js_number" where
  "js_div NaN b = NaN"
| "js_div a NaN = NaN"
| "js_div (Num p) (Num q) = (if q = 0 then inf_of_sign (sign_of (Num p)) else js_round (p / q))"
| "js_div (Num p) b = Num 0"
| "js_div a (Num q) = inf_of_sign (sign_of a * (if q < 0 then - 1 else 1))"
| "js_div a b = NaN"

text \<open>The comparison \<^verbatim>\<open><=\<close>: false as soon as an operand is \<open>NaN\<close>.\<close>

fun js_le :: "js_number \<Rightarrow> js_number \<Rightarrow> bool" where
  "js_le NaN b = False"
| "js_le a NaN = False"
| "js_le NegInf b = True"
| "js_le a PosInf = True"
| "js_le (Num p) (Num q) = (p \<le> q)"
| "js_le a b = False"

text \<open>\<^verbatim>\<open>Math.min\<close> of two numbers.\<close>

definition js_min :: "js_number \<Rightarrow> js_number \<Rightarrow> js_number" where
  "js_min a b = (if a = NaN \<or> b = NaN then NaN else if js_le a b then a else b)"

text \<open>A decimal literal of the source text denotes the binary64 value nearest to it.\<close>

definition js_literal :: "rat \<Rightarrow> js_number" where
  "js_literal q = js_round q"

text \<open>
  The smallest positive normal number, and the finite binary64 values: the rationals that
  rounding leaves as they are.
\<close>

definition min_normal :: rat where
  "min_normal = 2 powi (- 1022)"


section \<open>Strings\<close>

text \<open>
  \<^verbatim>\<open>field.value.replace(/^data:image\/\w+;base64,/, "")\<close>: the pattern is anchored at the
  start of the value, \<^verbatim>\<open>\w+\<close> is a non-empty run of letters, digits and underscores, and
  since the character after the run must be \<^verbatim>\<open>;\<close> (no word character) the run is the
  longest one. Without a match the value is returned as it is.
\<close>

definition word_char :: "char \<Rightarrow> bool" where
  "word_char c =
     (let n = (of_char c :: nat)
      in (48 \<le> n \<and> n \<le> 57) \<or> (65 \<le> n \<and> n \<le> 90) \<or> n = 95 \<or> (97 \<le> n \<and> n \<le> 122))"

fun match_literal :: "string \<Rightarrow> string \<Rightarrow> string option" where
  "match_literal [] s = Some s"
| "match_literal (c # cs) [] = None"
| "match_literal (c # cs) (d # ds) = (if c = d then match_literal cs ds else None)"

definition strip_data_uri :: "string \<Rightarrow> string" where
  "strip_data_uri v =
     (case match_literal ''data:image/'' v of
        None \<Rightarrow> v
      | Some r \<Rightarrow>
          if takeWhile word_char r = [] then v
          else (case match_literal '';base64,'' (dropWhile word_char r) of
                  None \<Rightarrow> v
                | Some rest \<Rightarrow> rest))"

text \<open>\<^verbatim>\<open>String.prototype.includes\<close>: \<open>js_includes v s\<close> holds when \<open>s\<close> occurs in \<open>v\<close>.\<close>

fun js_includes :: "string \<Rightarrow> string \<Rightarrow> bool" where
  "js_includes [] s = (s = [])"
| "js_includes (c # cs) s = (match_literal s (c # cs) \<noteq> None \<or> js_includes cs s)"

text \<open>
  \<^verbatim>\<open>path.join(dir, name)\<close> on a POSIX host. A path is the list of its segments from the
  root; \<open>dir\<close> is absolute and normalised already. The name is cut at every \<^verbatim>\<open>/\<close>, an
  empty segment and \<^verbatim>\<open>.\<close> are dropped, and \<^verbatim>\<open>..\<close> leaves the directory reached so far (at
  the root it stays there). \<open>enter\<close> keeps the segments reached so far innermost first.
\<close>

fun split_path :: "string \<Rightarrow> string list" where
  "split_path [] = [[]]"
| "split_path (c # cs) =
     (if c = CHR ''/'' then [] # split_path cs
      else (case split_path cs of [] \<Rightarrow> [[c]] | seg # segs \<Rightarrow> (c # seg) # segs))"

definition enter :: "string list \<Rightarrow> string \<Rightarrow> string list" where
  "enter up seg =
     (if seg = [] \<or> seg = ''.'' then up
      else if seg = ''..'' then (case up of [] \<Rightarrow> [] | d # ds \<Rightarrow> ds)
      else seg # up)"

definition path_join :: "string list \<Rightarrow> string \<Rightarrow> string list" where
  "path_join dir name = rev (foldl enter (rev dir) (split_path name))"

text \<open>\<^verbatim>\<open>Date.now().toString()\<close>: the decimal digits of the clock reading.\<close>

definition digit :: "nat \<Rightarrow> char" where
  "digit d = ''0123456789'' ! d"

fun to_decimal :: "nat \<Rightarrow> string" where
  "to_decimal n = (if n < 10 then [digit n] else to_decimal (n div 10) @ [digit (n mod 10)])"

declare to_decimal.simps [simp del]

section \<open>Data model\<close>

type_synonym bytes = "nat list"

text \<open>A field descriptor of the request body.\<close>

record field =
  fpage :: js_number
  ftype :: string
  fvalue :: string
  xRatio :: js_number
  yRatio :: js_number
  wRatio :: js_number
  hRatio :: js_number

text \<open>An embedded image, as \<^verbatim>\<open>embedJpg\<close> and \<^verbatim>\<open>embedPng\<close> return it.\<close>

datatype image_format = Jpeg | Png

record pdf_image =
  img_format :: image_format
  img_bytes :: bytes
  img_width :: js_number
  img_height :: js_number

record text_options =
  text_x :: js_number
  text_y :: js_number
  text_size :: js_number
  text_color :: "js_number \<times> js_number \<times> js_number"

record image_options =
  image_x :: js_number
  image_y :: js_number
  image_width :: js_number
  image_height :: js_number

datatype draw_op = DrawText string text_options | DrawImage pdf_image image_options

record pdf_page =
  width :: js_number
  height :: js_number
  content :: "draw_op list"

record pdf_doc =
  pages :: "pdf_page list"
  embedded :: "pdf_image list"

text \<open>The resolved rectangle \<^verbatim>\<open>x, y, w, h\<close> of a field.\<close>

record rect =
  rect_x :: js_number
  rect_y :: js_number
  rect_w :: js_number
  rect_h :: js_number

record audit =
  pdfId :: string
  originalHash :: string
  finalHash :: string
  createdAt :: nat

text \<open>
  The server's stores: the regular files of the host, keyed by their normalised absolute
  path, and the collection of audit documents in insertion order.
\<close>

record server =
  files :: "string list \<rightharpoonup> bytes"
  audits :: "audit list"

text \<open>
  What the handlers take from outside \<^verbatim>\<open>server.js\<close>: the configured base URL, the
  directory \<^verbatim>\<open>__dirname\<close> of the script, the digest of \<^verbatim>\<open>crypto\<close>, the base64 decoder of
  \<^verbatim>\<open>Buffer.from\<close>, the operations of \<^verbatim>\<open>pdf-lib\<close> (\<open>None\<close> and \<open>False\<close> stand for a thrown
  exception), and whether the file write and the insertion of the audit document succeed.
\<close>

record env =
  base_url :: string
  dirname :: "string list"
  sha256 :: "bytes \<Rightarrow> string"
  base64 :: "string \<Rightarrow> bytes"
  load :: "bytes \<Rightarrow> pdf_doc option"
  save :: "pdf_doc \<Rightarrow> bytes"
  embedJpg :: "bytes \<Rightarrow> pdf_image option"
  embedPng :: "bytes \<Rightarrow> pdf_image option"
  encodes :: "string \<Rightarrow> bool"
  write_ok :: bool
  create_ok :: bool

datatype error =
  LoadFailed | InvalidNumber | EncodeFailed | DecodeFailed | WriteFailed | CreateFailed

text \<open>The directories of the server below \<^verbatim>\<open>__dirname\<close>.\<close>

definition UPLOAD_DIR :: "env \<Rightarrow> string list" where
  "UPLOAD_DIR e = path_join (dirname e) ''uploads''"

definition ORIGINAL_DIR :: "env \<Rightarrow> string list" where
  "ORIGINAL_DIR e = path_join (UPLOAD_DIR e) ''original''"

definition SIGNED_DIR :: "env \<Rightarrow> string list" where
  "SIGNED_DIR e = path_join (UPLOAD_DIR e) ''signed''"

datatype response =
  Uploaded string string
| Finalized string string string
| Failed nat string

section \<open>The finalize handler\<close>

text \<open>\<^verbatim>\<open>pages[field.page - 1]\<close>: the index of the page, when there is one.\<close>

definition page_index :: "pdf_doc \<Rightarrow> js_number \<Rightarrow> nat option" where
  "page_index doc p =
     (case js_sub p (Num 1) of
        Num i \<Rightarrow>
          if of_int \<lfloor>i\<rfloor> = i \<and> 0 \<le> i \<and> nat \<lfloor>i\<rfloor> < length (pages doc)
          then Some (nat \<lfloor>i\<rfloor>) else None
      | _ \<Rightarrow> None)"

definition resolve :: "field \<Rightarrow> js_number \<Rightarrow> js_number \<Rightarrow> rect" where
  "resolve f pw ph =
     \<lparr>rect_x = js_mul (xRatio f) pw,
      rect_y = js_sub (js_sub ph (js_mul (yRatio f) ph)) (js_mul (hRatio f) ph),
      rect_w = js_mul (wRatio f) pw,
      rect_h = js_mul (hRatio f) ph\<rparr>"

definition rgb :: "js_number \<Rightarrow> js_number \<Rightarrow> js_number \<Rightarrow> js_number \<times> js_number \<times> js_number" where
  "rgb r g b = (r, g, b)"

text \<open>
  \<^verbatim>\<open>page.drawText\<close> and \<^verbatim>\<open>page.drawImage\<close> of \<^verbatim>\<open>pdf-lib\<close>. Both validate their numeric
  options first and raise when one of them is \<open>NaN\<close> (an infinity passes); \<^verbatim>\<open>drawText\<close>
  then encodes the text with the page's font and raises when it cannot.
\<close>

definition drawText :: "env \<Rightarrow> pdf_page \<Rightarrow> string \<Rightarrow> text_options \<Rightarrow> error + pdf_page" where
  "drawText e pg s opts =
     (if text_size opts = NaN \<or> text_x opts = NaN \<or> text_y opts = NaN then Inl InvalidNumber
      else if encodes e s then Inr (pg\<lparr>content := content pg @ [DrawText s opts]\<rparr>)
      else Inl EncodeFailed)"

definition drawImage :: "pdf_page \<Rightarrow> pdf_image \<Rightarrow> image_options \<Rightarrow> error + pdf_page" where
  "drawImage pg img opts =
     (if image_x opts = NaN \<or> image_y opts = NaN \<or> image_width opts = NaN \<or> image_height opts = NaN
      then Inl InvalidNumber
      else Inr (pg\<lparr>content := content pg @ [DrawImage img opts]\<rparr>))"

text \<open>The text and date branch of the loop body.\<close>

definition render_text :: "env \<Rightarrow> pdf_page \<Rightarrow> rect \<Rightarrow> field \<Rightarrow> error + pdf_page" where
  "render_text e pg r f =
     (if (ftype f = ''text'' \<or> ftype f = ''date'') \<and> fvalue f \<noteq> []
      then drawText e pg (fvalue f)
             \<lparr>text_x = rect_x r,
              text_y = js_add (rect_y r) (js_mul (rect_h r) (js_literal (35 / 100))),
              text_size = Num 11,
              text_color = rgb (Num 0) (Num 0) (Num 0)\<rparr>
      else Inr pg)"

text \<open>The decoding of a signature value and the choice of the decoder.\<close>

definition embed_signature :: "env \<Rightarrow> string \<Rightarrow> pdf_image option" where
  "embed_signature e v =
     (let imgBytes = base64 e (strip_data_uri v)
      in if js_includes v ''jpeg'' then embedJpg e imgBytes else embedPng e imgBytes)"

definition fit_scale :: "rect \<Rightarrow> pdf_image \<Rightarrow> js_number" where
  "fit_scale r img = js_min (js_div (rect_w r) (img_width img)) (js_div (rect_h r) (img_height img))"

definition aspect_fit :: "rect \<Rightarrow> pdf_image \<Rightarrow> image_options" where
  "aspect_fit r img =
     (let scale = fit_scale r img;
          drawW = js_mul (img_width img) scale;
          drawH = js_mul (img_height img) scale
      in \<lparr>image_x = js_add (rect_x r) (js_div (js_sub (rect_w r) drawW) (Num 2)),
          image_y = js_add (rect_y r) (js_div (js_sub (rect_h r) drawH) (Num 2)),
          image_width = drawW,
          image_height = drawH\<rparr>)"

text \<open>The signature branch: it embeds the image in the document and draws it on the page.\<close>

definition render_signature ::
  "env \<Rightarrow> pdf_image list \<Rightarrow> pdf_page \<Rightarrow> rect \<Rightarrow> field \<Rightarrow> error + (pdf_image list \<times> pdf_page)" where
  "render_signature e imgs pg r f =
     (if ftype f = ''signature'' \<and> fvalue f \<noteq> []
      then (case embed_signature e (fvalue f) of
              None \<Rightarrow> Inl DecodeFailed
            | Some img \<Rightarrow>
                (case drawImage pg img (aspect_fit r img) of
                   Inl err \<Rightarrow> Inl err
                 | Inr pg1 \<Rightarrow> Inr (imgs @ [img], pg1)))
      else Inr (imgs, pg))"

text \<open>One iteration of \<^verbatim>\<open>for (const field of fields)\<close>.\<close>

definition render_field :: "env \<Rightarrow> pdf_doc \<Rightarrow> field \<Rightarrow> error + pdf_doc" where
  "render_field e doc f =
     (case page_index doc (fpage f) of
        None \<Rightarrow> Inr doc
      | Some k \<Rightarrow>
          (let pg = pages doc ! k;
               r = resolve f (width pg) (height pg)
           in case render_text e pg r f of
                Inl err \<Rightarrow> Inl err
              | Inr pg1 \<Rightarrow>
                  (case render_signature e (embedded doc) pg1 r f of
                     Inl err \<Rightarrow> Inl err
                   | Inr (imgs, pg2) \<Rightarrow>
                       Inr (doc\<lparr>pages := (pages doc)[k := pg2], embedded := imgs\<rparr>))))"

fun render_fields :: "env \<Rightarrow> pdf_doc \<Rightarrow> field list \<Rightarrow> error + pdf_doc" where
  "render_fields e doc [] = Inr doc"
| "render_fields e doc (f # fs) =
     (case render_field e doc f of
        Inl err \<Rightarrow> Inl err
      | Inr doc1 \<Rightarrow> render_fields e doc1 fs)"

text \<open>
  The body of the \<^verbatim>\<open>try\<close> block after the existence check: every exception is a value
  \<open>Inl\<close>, and the server is returned as the exception leaves it.
\<close>

definition finalize_body ::
  "env \<Rightarrow> nat \<Rightarrow> server \<Rightarrow> string \<Rightarrow> bytes \<Rightarrow> field list \<Rightarrow> server \<times> (error + response)" where
  "finalize_body e now s pid originalBytes field_list =
     (let original_hash = sha256 e originalBytes
      in case load e originalBytes of
           None \<Rightarrow> (s, Inl LoadFailed)
         | Some pdfDoc \<Rightarrow>
             (case render_fields e pdfDoc field_list of
                Inl err \<Rightarrow> (s, Inl err)
              | Inr doc1 \<Rightarrow>
                  (let finalPdf = save e doc1;
                       final_hash = sha256 e finalPdf;
                       outputPath = path_join (SIGNED_DIR e) (pid @ ''-final.pdf'')
                   in if \<not> write_ok e then (s, Inl WriteFailed)
                      else
                        (let s1 = s\<lparr>files := (files s)(outputPath \<mapsto> finalPdf)\<rparr>
                         in if \<not> create_ok e then (s1, Inl CreateFailed)
                            else
                              (s1\<lparr>audits := audits s1 @
                                    [\<lparr>pdfId = pid, originalHash = original_hash,
                                      finalHash = final_hash, createdAt = now\<rparr>]\<rparr>,
                               Inr (Finalized (base_url e @ ''/files/signed/'' @ pid @ ''-final.pdf'')
                                      original_hash final_hash))))))"

text \<open>
  \<^verbatim>\<open>POST /finalize-pdf\<close> with body \<^verbatim>\<open>{pdfId, fields}\<close>, at clock reading \<open>now\<close>. The
  original is looked up under \<^verbatim>\<open>path.join(ORIGINAL_DIR, `${pdfId}.pdf`)\<close>.
\<close>

definition finalize_pdf :: "env \<Rightarrow> nat \<Rightarrow> server \<Rightarrow> string \<Rightarrow> field list \<Rightarrow> server \<times> response" where
  "finalize_pdf e now s pid field_list =
     (case files s (path_join (ORIGINAL_DIR e) (pid @ ''.pdf'')) of
        None \<Rightarrow> (s, Failed 404 ''PDF not found'')
      | Some originalBytes \<Rightarrow>
          (case finalize_body e now s pid originalBytes field_list of
             (s1, Inl err) \<Rightarrow> (s1, Failed 500 ''PDF finalization failed'')
           | (s1, Inr res) \<Rightarrow> (s1, res)))"

section \<open>The upload handler\<close>

text \<open>
  \<^verbatim>\<open>POST /upload-pdf\<close> at clock reading \<open>now\<close> (milliseconds); \<open>file\<close> is the buffer of the
  uploaded file, \<open>None\<close> when the request carries none.
\<close>

definition upload_pdf :: "env \<Rightarrow> nat \<Rightarrow> server \<Rightarrow> bytes option \<Rightarrow> server \<times> response" where
  "upload_pdf e now s file =
     (case file of
        None \<Rightarrow> (s, Failed 400 ''No PDF uploaded'')
      | Some buffer \<Rightarrow>
          (let pid = to_decimal now;
               filePath = path_join (ORIGINAL_DIR e) (pid @ ''.pdf'')
           in if \<not> write_ok e then (s, Failed 500 ''PDF upload failed'')
              else (s\<lparr>files := (files s)(filePath \<mapsto> buffer)\<rparr>,
                    Uploaded pid (base_url e @ ''/files/original/'' @ pid @ ''.pdf''))))"

section \<open>Example inputs\<close>

text \<open>
  A one-page document of 612 by 792 points and a stand-in for the collaborators, at which
  the theorems below are instantiated: the stand-in decodes every non-empty buffer to a
  200 by 100 image and fails on the empty buffer.
\<close>

definition blank_doc :: pdf_doc where
  "blank_doc = \<lparr>pages = [\<lparr>width = Num 612, height = Num 792, content = []\<rparr>], embedded = []\<rparr>"

definition example_image :: "image_format \<Rightarrow> bytes \<Rightarrow> pdf_image option" where
  "example_image fmt b =
     (if b = [] then None
      else Some \<lparr>img_format = fmt, img_bytes = b, img_width = Num 200, img_height = Num 100\<rparr>)"

definition example_env :: env where
  "example_env =
     \<lparr>base_url = ''http://localhost:5000'',
      dirname = [''app''],
      sha256 = (\<lambda>b. to_decimal (sum_list b)),
      base64 = map of_char,
      load = (\<lambda>b. Some blank_doc),
      save = (\<lambda>d. concat (map (\<lambda>pg. [length (content pg)]) (pages d))),
      embedJpg = example_image Jpeg,
      embedPng = example_image Png,
      encodes = (\<lambda>s. True),
      write_ok = True,
      create_ok = True\<rparr>"

definition example_field :: "string \<Rightarrow> string \<Rightarrow> rat \<Rightarrow> field" where
  "example_field t v p =
     \<lparr>fpage = Num p, ftype = t, fvalue = v,
      xRatio = js_literal (1 / 10), yRatio = js_literal (1 / 10),
      wRatio = js_literal (3 / 10), hRatio = js_literal (5 / 100)\<rparr>"

definition empty_server :: server where
  "empty_server = \<lparr>files = Map.empty, audits = []\<rparr>"

definition stored :: server where
  "stored = empty_server\<lparr>files := [[''app'', ''uploads'', ''original'', ''1.pdf''] \<mapsto> [1, 2, 3]]\<rparr>"

text \<open>
  Four finalizations in a row on the server that stores document \<^verbatim>\<open>1\<close>: of the identifier
  \<^verbatim>\<open>../original/1\<close> without fields, of \<^verbatim>\<open>1-final\<close>, of \<^verbatim>\<open>../original/1\<close> with one text
  field, and of \<^verbatim>\<open>1-final\<close> again.
\<close>

definition crafted_first :: "server \<times> response" where
  "crafted_first = finalize_pdf example_env 7 stored ''../original/1'' []"

definition derived_first :: "server \<times> response" where
  "derived_first = finalize_pdf example_env 8 (fst crafted_first) ''1-final'' []"

definition crafted_second :: "server \<times> response" where
  "crafted_second =
     finalize_pdf example_env 9 (fst derived_first) ''../original/1'' [example_field ''text'' ''Hello'' 1]"

definition derived_second :: "server \<times> response" where
  "derived_second = finalize_pdf example_env 10 (fst crafted_second) ''1-final'' []"

text \<open>Two uploads answered at the same clock reading, the second after the first.\<close>

definition first_upload :: "server \<times> response" where
  "first_upload = upload_pdf example_env 1700000000000 empty_server (Some [1])"

definition second_upload :: "server \<times> response" where
  "second_upload = upload_pdf example_env 1700000000000 (fst first_upload) (Some [2])"


definition square_rect :: rect where
  "square_rect = \<lparr>rect_x = Num 0, rect_y = Num 0, rect_w = Num 100, rect_h = Num 100\<rparr>"

definition landscape_image :: pdf_image where
  "landscape_image = \<lparr>img_format = Png, img_bytes = [], img_width = Num 200, img_height = Num 100\<rparr>"

definition wide_image :: pdf_image where
  "wide_image = \<lparr>img_format = Png, img_bytes = [], img_width = Num 340, img_height = Num 60\<rparr>"

section \<open>Properties of rounding\<close>

lemma bitlen_bounds:
  "0 < a \<Longrightarrow> a < 2 ^ bitlen a \<and> 2 ^ bitlen a \<le> 2 * a"
proof (induction a rule: bitlen.induct)
  case (1 a)
  show ?case
  proof (cases "a div 2 \<le> 0")
    case True
    with "1.prems" have "a = 1" by linarith
    then show ?thesis by (simp add: bitlen.simps)
  next
    case False
    then have pos: "0 < a div 2" by simp
    have IH: "a div 2 < 2 ^ bitlen (a div 2) \<and> 2 ^ bitlen (a div 2) \<le> 2 * (a div 2)"
      using "1.IH" "1.prems" pos by simp
    have b: "bitlen a = Suc (bitlen (a div 2))"
      using "1.prems" by (subst bitlen.simps) simp
    have "a < 2 * (a div 2) + 2" by linarith
    moreover have "2 * (a div 2) \<le> a" by linarith
    ultimately show ?thesis using IH unfolding b by simp
  qed
qed

lemma two_powi_pos: "0 < (2::rat) powi k"
  by simp

lemma two_powi_add: "(2::rat) powi (m + n) = 2 powi m * 2 powi n"
  by (simp add: power_int_add)

lemma two_powi_diff: "(2::rat) powi (m - n) = 2 powi m / 2 powi n"
  by (simp add: power_int_diff)

lemma two_powi_mono: "m \<le> n \<Longrightarrow> (2::rat) powi m \<le> 2 powi n"
  by (rule power_int_increasing) simp_all

lemma two_powi_less_cancel: "(2::rat) powi m < 2 powi n \<Longrightarrow> m < n"
  by (metis linorder_not_less two_powi_mono)

lemma ilog2_bounds:
  assumes "0 < q"
  shows "2 powi ilog2 q \<le> q \<and> q < 2 powi (ilog2 q + 1)"
proof -
  obtain a b where ab: "quotient_of q = (a, b)" by (cases "quotient_of q")
  have b: "0 < b" using ab by (rule quotient_of_denom_pos)
  have q: "q = of_int a / of_int b" using ab by (rule quotient_of_div)
  have a: "0 < a" using assms b q by (simp add: zero_less_divide_iff)
  define A where "A = bitlen a"
  define B where "B = bitlen b"
  define k where "k = int A - int B"
  have A: "a < 2 ^ A" "2 ^ A \<le> 2 * a" using bitlen_bounds [OF a] by (simp_all add: A_def)
  have B: "b < 2 ^ B" "2 ^ B \<le> 2 * b" using bitlen_bounds [OF b] by (simp_all add: B_def)
  have ra: "(of_int a :: rat) < 2 ^ A" "(2::rat) ^ A \<le> 2 * of_int a"
    using A by (metis of_int_less_iff of_int_numeral of_int_power, metis of_int_le_iff of_int_mult of_int_numeral of_int_power)
  have rb: "(of_int b :: rat) < 2 ^ B" "(2::rat) ^ B \<le> 2 * of_int b"
    using B by (metis of_int_less_iff of_int_numeral of_int_power, metis of_int_le_iff of_int_mult of_int_numeral of_int_power)
  have pk: "(2::rat) powi k = 2 ^ A / 2 ^ B"
    by (simp add: k_def two_powi_diff)
  have bpos: "0 < (of_int b :: rat)" using b by simp
  have up: "q < 2 powi (k + 1)"
  proof -
    have "of_int a * (2::rat) ^ B < 2 ^ A * (2 * of_int b)"
      using ra(1) rb(2) bpos by (intro mult_less_le_imp_less) (auto simp: a less_imp_le)
    then have "q < 2 * (2 ^ A / 2 ^ B)"
      using bpos by (simp add: q field_simps)
    then show ?thesis by (simp add: two_powi_add pk mult.commute)
  qed
  have lo: "2 powi (k - 1) < q"
  proof -
    have "2 ^ A * of_int b < (2 * of_int a) * (2::rat) ^ B"
      using ra(2) rb(1) bpos a by (intro mult_le_less_imp_less) auto
    then have "(2 ^ A / 2 ^ B) / 2 < q"
      using bpos by (simp add: q field_simps)
    then show ?thesis by (simp add: two_powi_diff pk)
  qed
  have il: "ilog2 q = (if 2 powi k \<le> q then k else k - 1)"
    by (simp add: ilog2_def ab Let_def k_def A_def B_def)
  show ?thesis
  proof (cases "2 powi k \<le> q")
    case True
    then show ?thesis using up il by simp
  next
    case False
    then show ?thesis using lo il by simp
  qed
qed

lemma ilog2_unique:
  assumes "2 powi e \<le> q" "q < 2 powi (e + 1)"
  shows "ilog2 q = e"
proof -
  have q: "0 < q" using assms(1) two_powi_pos [of e] by linarith
  note b = ilog2_bounds [OF q]
  have "2 powi e < (2::rat) powi (ilog2 q + 1)" using assms(1) b by linarith
  then have "e < ilog2 q + 1" by (rule two_powi_less_cancel)
  moreover have "2 powi ilog2 q < (2::rat) powi (e + 1)" using assms(2) b by linarith
  then have "ilog2 q < e + 1" by (rule two_powi_less_cancel)
  ultimately show ?thesis by simp
qed

lemma ilog2_mono:
  assumes "0 < p" "p \<le> q"
  shows "ilog2 p \<le> ilog2 q"
proof -
  have q: "0 < q" using assms by simp
  have "2 powi ilog2 p < (2::rat) powi (ilog2 q + 1)"
    using ilog2_bounds [OF assms(1)] ilog2_bounds [OF q] assms(2) by linarith
  then have "ilog2 p < ilog2 q + 1" by (rule two_powi_less_cancel)
  then show ?thesis by simp
qed

lemma round_half_even_error: "\<bar>of_int (round_half_even r) - r\<bar> \<le> 1 / 2"
proof -
  have "of_int \<lfloor>r\<rfloor> \<le> r" "r < of_int \<lfloor>r\<rfloor> + 1" by linarith+
  then show ?thesis
    by (auto simp: round_half_even_def Let_def)
qed

lemma round_half_even_of_int [simp]: "round_half_even (of_int n) = n"
  by (simp add: round_half_even_def)

lemma round_half_even_mono:
  assumes "r \<le> s"
  shows "round_half_even r \<le> round_half_even s"
proof (cases "\<lfloor>r\<rfloor> = \<lfloor>s\<rfloor>")
  case True
  then show ?thesis using assms
    by (auto simp: round_half_even_def Let_def)
next
  case False
  then have "\<lfloor>r\<rfloor> < \<lfloor>s\<rfloor>" using assms floor_mono [of r s] by linarith
  moreover have "round_half_even r \<le> \<lfloor>r\<rfloor> + 1" by (simp add: round_half_even_def Let_def)
  moreover have "\<lfloor>s\<rfloor> \<le> round_half_even s" by (simp add: round_half_even_def Let_def)
  ultimately show ?thesis by linarith
qed

lemma round_half_even_ge: "of_int n \<le> r \<Longrightarrow> n \<le> round_half_even r"
  using round_half_even_mono [of "of_int n" r] by simp

lemma round_half_even_le: "r \<le> of_int n \<Longrightarrow> round_half_even r \<le> n"
  using round_half_even_mono [of r "of_int n"] by simp

lemma ulp_pos: "0 < ulp q"
  by (simp add: ulp_def)

lemma fl_pos_error: "\<bar>fl_pos q - q\<bar> \<le> ulp q / 2"
proof -
  have "fl_pos q - q = (of_int (round_half_even (q / ulp q)) - q / ulp q) * ulp q"
    using ulp_pos [of q] by (simp add: fl_pos_def field_simps)
  then have "\<bar>fl_pos q - q\<bar> = \<bar>of_int (round_half_even (q / ulp q)) - q / ulp q\<bar> * ulp q"
    using ulp_pos [of q] by (simp add: abs_mult)
  also have "\<dots> \<le> (1 / 2) * ulp q"
    using round_half_even_error [of "q / ulp q"] ulp_pos [of q] by (intro mult_right_mono) auto
  finally show ?thesis by simp
qed

lemma fl_pos_nonneg: "0 \<le> q \<Longrightarrow> 0 \<le> fl_pos q"
proof -
  assume "0 \<le> q"
  then have "of_int 0 \<le> q / ulp q" using ulp_pos [of q] by simp
  then have "0 \<le> round_half_even (q / ulp q)" by (rule round_half_even_ge)
  then show ?thesis using ulp_pos [of q] by (simp add: fl_pos_def)
qed

lemma fl_zero [simp]: "fl 0 = 0"
  by (simp add: fl_def)

lemma fl_minus: "fl (- q) = - fl q"
  by (simp add: fl_def)

lemma fl_nonneg: "0 \<le> q \<Longrightarrow> 0 \<le> fl q"
  by (simp add: fl_def fl_pos_nonneg)

lemma fl_nonpos: "q \<le> 0 \<Longrightarrow> fl q \<le> 0"
  using fl_nonneg [of "- q"] by (simp add: fl_minus)

lemma ulp_scale52: "2 ^ 52 * (2::rat) powi (e - 52) = 2 powi e"
  by (simp add: power_int_diff)

lemma ulp_scale53: "2 ^ 53 * (2::rat) powi (e - 52) = 2 powi (e + 1)"
  by (simp add: power_int_diff power_int_add)

text \<open>Within a binade the quotient by the spacing lies between \<open>2\<^sup>5\<^sup>2\<close> and \<open>2\<^sup>5\<^sup>3\<close>.\<close>

lemma quotient_upper:
  assumes "0 < q"
  shows "q / ulp q < 2 ^ 53"
proof -
  let ?e = "max (ilog2 q) (- 1022)"
  have "q < 2 powi (ilog2 q + 1)" using ilog2_bounds [OF assms] by simp
  also have "\<dots> \<le> 2 powi (?e + 1)" by (rule two_powi_mono) simp
  also have "\<dots> = 2 ^ 53 * 2 powi (?e - 52)"
    by (rule ulp_scale53 [symmetric])
  finally have "q < ulp q * 2 ^ 53" by (simp only: ulp_def mult.commute)
  then show ?thesis using ulp_pos [of q] by (simp add: field_simps)
qed

lemma quotient_lower:
  assumes "0 < q" "- 1022 \<le> ilog2 q"
  shows "2 ^ 52 \<le> q / ulp q"
proof -
  have e: "max (ilog2 q) (- 1022) = ilog2 q" using assms(2) by simp
  have "2 ^ 52 * 2 powi (ilog2 q - 52) = (2::rat) powi ilog2 q"
    by (rule ulp_scale52)
  also have "\<dots> \<le> q" using ilog2_bounds [OF assms(1)] by simp
  finally have "ulp q * 2 ^ 52 \<le> q" by (simp only: ulp_def e mult.commute)
  then show ?thesis using ulp_pos [of q] by (simp add: field_simps)
qed

lemma fl_pos_upper:
  assumes "0 < q"
  shows "fl_pos q \<le> 2 powi (max (ilog2 q) (- 1022) + 1)"
proof -
  have "q / ulp q \<le> of_int (2 ^ 53)" using quotient_upper [OF assms] by simp
  then have "round_half_even (q / ulp q) \<le> 2 ^ 53" by (rule round_half_even_le)
  then have "(of_int (round_half_even (q / ulp q)) :: rat) \<le> 2 ^ 53"
    by (metis of_int_le_iff of_int_numeral of_int_power)
  then have "fl_pos q \<le> 2 ^ 53 * ulp q"
    unfolding fl_pos_def using ulp_pos [of q] by (intro mult_right_mono) auto
  also have "2 ^ 53 * ulp q = 2 powi (max (ilog2 q) (- 1022) + 1)"
    unfolding ulp_def by (rule ulp_scale53)
  finally show ?thesis .
qed

lemma fl_pos_lower:
  assumes "0 < q" "- 1022 \<le> ilog2 q"
  shows "2 powi ilog2 q \<le> fl_pos q"
proof -
  have e: "max (ilog2 q) (- 1022) = ilog2 q" using assms(2) by simp
  have "of_int (2 ^ 52) \<le> q / ulp q" using quotient_lower [OF assms] by simp
  then have "2 ^ 52 \<le> round_half_even (q / ulp q)" by (rule round_half_even_ge)
  then have "(2::rat) ^ 52 \<le> of_int (round_half_even (q / ulp q))"
    by (metis of_int_le_iff of_int_numeral of_int_power)
  then have "2 ^ 52 * ulp q \<le> fl_pos q"
    unfolding fl_pos_def using ulp_pos [of q] by (intro mult_right_mono) auto
  moreover have "2 ^ 52 * ulp q = 2 powi ilog2 q"
    unfolding ulp_def e by (rule ulp_scale52)
  ultimately show ?thesis by simp
qed

lemma fl_pos_mono:
  assumes "0 < p" "p \<le> q"
  shows "fl_pos p \<le> fl_pos q"
proof -
  let ?ep = "max (ilog2 p) (- 1022)"
  let ?eq = "max (ilog2 q) (- 1022)"
  have q: "0 < q" using assms by simp
  have le: "?ep \<le> ?eq" using ilog2_mono [OF assms] by simp
  show ?thesis
  proof (cases "?ep = ?eq")
    case True
    then have u: "ulp p = ulp q" by (simp add: ulp_def)
    have "p / ulp q \<le> q / ulp q" using assms(2) ulp_pos [of q] by (simp add: divide_right_mono)
    then have "round_half_even (p / ulp q) \<le> round_half_even (q / ulp q)"
      by (rule round_half_even_mono)
    then show ?thesis
      unfolding fl_pos_def u using ulp_pos [of q] by (intro mult_right_mono) auto
  next
    case False
    then have lt: "?ep < ?eq" using le by linarith
    then have n: "- 1022 \<le> ilog2 q" "?eq = ilog2 q" by auto
    have "fl_pos p \<le> 2 powi (?ep + 1)" using assms(1) by (rule fl_pos_upper)
    also have "\<dots> \<le> 2 powi ilog2 q" using lt n(2) by (intro two_powi_mono) linarith
    also have "\<dots> \<le> fl_pos q" using q n(1) by (rule fl_pos_lower)
    finally show ?thesis .
  qed
qed

lemma fl_mono:
  assumes "p \<le> q"
  shows "fl p \<le> fl q"
proof -
  consider "0 < p" | "p \<le> 0" "0 \<le> q" | "q < 0" using assms by linarith
  then show ?thesis
  proof cases
    case 1
    then show ?thesis using assms fl_pos_mono [of p q] by (simp add: fl_def)
  next
    case 2
    then show ?thesis using fl_nonneg [of q] fl_nonpos [of p] by simp
  next
    case 3
    then have "0 < - q" "- q \<le> - p" using assms by simp_all
    then have "fl_pos (- q) \<le> fl_pos (- p)" by (rule fl_pos_mono)
    then show ?thesis using 3 assms by (simp add: fl_def)
  qed
qed

lemma fl_pos_representable_aux:
  assumes "0 < m" "m < 2 ^ 53" "- 1074 \<le> k"
  shows "fl_pos (of_int m * 2 powi k) = of_int m * 2 powi k"
proof -
  let ?r = "of_int m * (2::rat) powi k"
  let ?e = "max (ilog2 ?r) (- 1022)"
  have r: "0 < ?r" using assms(1) by simp
  have "(of_int m :: rat) < 2 ^ 53"
    using assms(2) by (metis of_int_less_iff of_int_numeral of_int_power)
  then have "?r < 2 ^ 53 * 2 powi k" by (intro mult_strict_right_mono) simp_all
  also have "\<dots> = 2 powi (k + 52 + 1)" using ulp_scale53 [of "k + 52"] by simp
  finally have "2 powi ilog2 ?r < (2::rat) powi (k + 52 + 1)"
    using ilog2_bounds [OF r] by linarith
  then have "ilog2 ?r < k + 52 + 1" by (rule two_powi_less_cancel)
  then have d: "0 \<le> k - (?e - 52)" using assms(3) by linarith
  have "?r / ulp ?r = of_int m * (2 powi k / 2 powi (?e - 52))"
    by (simp add: ulp_def)
  also have "2 powi k / 2 powi (?e - 52) = (2::rat) powi (k - (?e - 52))"
    by (rule two_powi_diff [symmetric])
  also have "\<dots> = 2 ^ nat (k - (?e - 52))"
    using d by (rule power_int_nonneg_exp)
  also have "of_int m * (2::rat) ^ nat (k - (?e - 52)) = of_int (m * 2 ^ nat (k - (?e - 52)))"
    by simp
  finally have "round_half_even (?r / ulp ?r) = m * 2 ^ nat (k - (?e - 52))"
    by (simp only: round_half_even_of_int)
  then have "fl_pos ?r = of_int (m * 2 ^ nat (k - (?e - 52))) * ulp ?r"
    by (simp only: fl_pos_def)
  also have "\<dots> = of_int m * (2 powi (k - (?e - 52)) * 2 powi (?e - 52))"
    using d by (simp add: ulp_def power_int_nonneg_exp)
  also have "2 powi (k - (?e - 52)) * 2 powi (?e - 52) = (2::rat) powi k"
    by (simp flip: two_powi_add)
  finally show ?thesis .
qed

lemma fl_pos_representable:
  assumes "0 < m" "m \<le> 2 ^ 53" "- 1074 \<le> k"
  shows "fl_pos (of_int m * 2 powi k) = of_int m * 2 powi k"
proof (cases "m = 2 ^ 53")
  case False
  then show ?thesis using assms by (intro fl_pos_representable_aux) simp_all
next
  case True
  have "of_int m * (2::rat) powi k = 2 * (2 ^ 52 * 2 powi k)" by (simp add: True)
  also have "\<dots> = 2 ^ 52 * (2 powi k * 2 powi 1)" by simp
  also have "\<dots> = of_int (2 ^ 52) * 2 powi (k + 1)" by (simp only: two_powi_add) simp
  finally have eq: "of_int m * (2::rat) powi k = of_int (2 ^ 52) * 2 powi (k + 1)" .
  have "fl_pos (of_int (2 ^ 52) * 2 powi (k + 1)) = of_int (2 ^ 52) * 2 powi (k + 1)"
    using assms(3) by (intro fl_pos_representable_aux) simp_all
  then show ?thesis by (simp only: eq)
qed


lemma fl_of_int:
  assumes "\<bar>n\<bar> \<le> 2 ^ 53"
  shows "fl (of_int n) = of_int n"
proof -
  have pos: "fl_pos (of_int m) = of_int m" if "0 < m" "m \<le> 2 ^ 53" for m
    using fl_pos_representable [OF that, of 0] by simp
  consider "n = 0" | "0 < n" | "n < 0" by linarith
  then show ?thesis
  proof cases
    case 1
    then show ?thesis by simp
  next
    case 2
    then show ?thesis using pos [of n] assms by (simp add: fl_def)
  next
    case 3
    then show ?thesis using pos [of "- n"] assms by (simp add: fl_def)
  qed
qed

lemma abs_less_two_powi:
  assumes "r \<noteq> 0"
  shows "ilog2 \<bar>r\<bar> < n \<longleftrightarrow> \<bar>r\<bar> < 2 powi n"
proof
  assume "ilog2 \<bar>r\<bar> < n"
  then have "(2::rat) powi (ilog2 \<bar>r\<bar> + 1) \<le> 2 powi n" by (intro two_powi_mono) simp
  then show "\<bar>r\<bar> < 2 powi n" using ilog2_bounds [of "\<bar>r\<bar>"] assms by simp
next
  assume "\<bar>r\<bar> < 2 powi n"
  then have "2 powi ilog2 \<bar>r\<bar> < (2::rat) powi n" using ilog2_bounds [of "\<bar>r\<bar>"] assms by simp
  then show "ilog2 \<bar>r\<bar> < n" by (rule two_powi_less_cancel)
qed

lemma js_round_finite:
  assumes "\<bar>fl q\<bar> < 2 ^ 1024"
  shows "js_round q = Num (fl q)"
proof (cases "fl q = 0")
  case True
  then show ?thesis by (simp add: js_round_def)
next
  case False
  have "\<bar>fl q\<bar> < 2 powi 1024" using assms by simp
  then have "ilog2 \<bar>fl q\<bar> < 1024" using abs_less_two_powi [OF False] by simp
  then show ?thesis using False by (simp add: js_round_def Let_def)
qed



lemma min_normal_pos: "0 < min_normal"
  by (simp only: min_normal_def two_powi_pos)

lemma fl_rel_error:
  assumes "min_normal \<le> \<bar>q\<bar>"
  shows "\<bar>fl q - q\<bar> \<le> \<bar>q\<bar> / 2 ^ 53"
proof -
  have pos: "\<bar>fl_pos p - p\<bar> \<le> p / 2 ^ 53" if "min_normal \<le> p" for p
  proof -
    have p: "0 < p" using that min_normal_pos by linarith
    have "2 powi (- 1022) < (2::rat) powi (ilog2 p + 1)"
      using that ilog2_bounds [OF p] by (simp only: min_normal_def) linarith
    then have "- 1022 < ilog2 p + 1" by (rule two_powi_less_cancel)
    then have e: "max (ilog2 p) (- 1022) = ilog2 p" by simp
    have "2 ^ 52 * ulp p = 2 powi ilog2 p" unfolding ulp_def e by (rule ulp_scale52)
    then have "2 ^ 52 * ulp p \<le> p" using ilog2_bounds [OF p] by simp
    then have "ulp p / 2 \<le> p / 2 ^ 53" by (simp add: field_simps)
    then show ?thesis using fl_pos_error [of p] by linarith
  qed
  have q: "q \<noteq> 0" using assms min_normal_pos by auto
  show ?thesis
  proof (cases "0 < q")
    case True
    then show ?thesis using pos [of q] assms by (simp add: fl_def)
  next
    case False
    then have n: "q < 0" using q by simp
    then have "\<bar>fl_pos (- q) - (- q)\<bar> \<le> (- q) / 2 ^ 53" using pos [of "- q"] assms by simp
    then show ?thesis using n by (simp add: fl_def abs_minus_commute)
  qed
qed






lemma fl_min_normal: "fl min_normal = min_normal"
proof -
  have "fl_pos (of_int 1 * 2 powi (- 1022)) = of_int 1 * 2 powi (- 1022)"
    by (rule fl_pos_representable) simp_all
  then have "fl_pos min_normal = min_normal" by (simp add: min_normal_def)
  then show ?thesis using min_normal_pos by (simp add: fl_def)
qed

text \<open>Rounding a value of the normal range that stays below \<open>2\<^sup>1\<^sup>0\<^sup>2\<^sup>3\<close> times \<open>1 + 2\<^sup>-\<^sup>5\<^sup>3\<close>.\<close>

lemma js_round_normal:
  assumes "min_normal \<le> q" "q \<le> 2 ^ 1023 * (1 + 1 / 2 ^ 53)"
  shows "js_round q = Num (fl q)" and "min_normal \<le> fl q"
    and "\<bar>fl q - q\<bar> \<le> q / 2 ^ 53"
proof -
  have q: "0 < q" using assms(1) min_normal_pos by linarith
  have e: "\<bar>fl q - q\<bar> \<le> \<bar>q\<bar> / 2 ^ 53" using assms(1) by (intro fl_rel_error) linarith
  then show "\<bar>fl q - q\<bar> \<le> q / 2 ^ 53" using q by simp
  have "fl min_normal \<le> fl q" using assms(1) by (rule fl_mono)
  then show lo: "min_normal \<le> fl q" by (simp only: fl_min_normal)
  have "fl q - q \<le> q / 2 ^ 53" using e q by linarith
  moreover have "q + q / 2 ^ 53 = q * (1 + 1 / 2 ^ 53)" by (simp add: algebra_simps)
  ultimately have "fl q \<le> q * (1 + 1 / 2 ^ 53)" by linarith
  also have "\<dots> \<le> (2 ^ 1023 * (1 + 1 / 2 ^ 53)) * (1 + 1 / 2 ^ 53)"
    using assms(2) by (intro mult_right_mono) simp_all
  also have "\<dots> < 2 ^ 1024" by simp
  finally have "fl q < 2 ^ 1024" .
  moreover have "0 < fl q" using lo min_normal_pos by linarith
  ultimately have "\<bar>fl q\<bar> < 2 ^ 1024" by simp
  then show "js_round q = Num (fl q)" by (rule js_round_finite)
qed

lemma ratio_aux:
  fixes X Y P :: rat
  assumes "\<bar>X - P\<bar> \<le> P / 2 ^ 53" "\<bar>Y - P\<bar> \<le> P / 2 ^ 53" "0 \<le> P"
  shows "\<bar>X - Y\<bar> \<le> Y / 2 ^ 51"
proof -
  define d where "d = P / 2 ^ 53"
  have d: "0 \<le> d" "P = 9007199254740992 * d" using assms(3) by (simp_all add: d_def)
  have a: "\<bar>X - P\<bar> \<le> d" "\<bar>Y - P\<bar> \<le> d" using assms(1,2) by (simp_all add: d_def)
  have "\<bar>X - Y\<bar> \<le> 2 * d" using a by linarith
  moreover have "P - d \<le> Y" using a by linarith
  then have "(P - d) / 2 ^ 51 \<le> Y / 2 ^ 51" by (intro divide_right_mono) simp_all
  moreover have "2 * d \<le> (P - d) / 2 ^ 51" using d by simp
  ultimately show ?thesis by linarith
qed

lemma js_min_Num: "js_min (Num p) (Num q) = Num (min p q)"
  by (simp add: js_min_def min_def)

lemma fit_side:
  assumes iw: "1 \<le> iw" and lo: "min_normal * iw \<le> w" and hi: "w \<le> 2 ^ 1023"
      and s: "min_normal \<le> s" "s \<le> fl (w / iw)"
  shows "js_round (w / iw) = Num (fl (w / iw))"
    and "js_round (iw * s) = Num (fl (iw * s))"
    and "\<bar>fl (iw * s) - iw * s\<bar> \<le> iw * s / 2 ^ 53"
    and "fl (iw * s) \<le> w * (1 + 1 / 2 ^ 51)"
proof -
  have ipos: "0 < iw" using iw by simp
  have spos: "0 < s" using s(1) min_normal_pos by linarith
  have wpos: "0 < w"
    using lo ipos min_normal_pos mult_pos_pos [of min_normal iw] by linarith
  have q1: "min_normal \<le> w / iw" using lo ipos by (simp add: pos_le_divide_eq)
  have "w / iw \<le> w / 1" using iw wpos by (intro divide_left_mono) simp_all
  then have q2: "w / iw \<le> 2 ^ 1023 * (1 + 1 / 2 ^ 53)" using hi by simp
  note Q = js_round_normal [OF q1 q2]
  show "js_round (w / iw) = Num (fl (w / iw))" by (rule Q(1))
  have "fl (w / iw) - w / iw \<le> (w / iw) / 2 ^ 53" using Q(3) by linarith
  then have s1: "fl (w / iw) \<le> (w / iw) * (1 + 1 / 2 ^ 53)" by (simp add: algebra_simps)
  have "iw * s \<le> iw * fl (w / iw)" using s(2) ipos by (intro mult_left_mono) simp_all
  also have "\<dots> \<le> iw * ((w / iw) * (1 + 1 / 2 ^ 53))" using s1 ipos by (intro mult_left_mono) simp_all
  also have "\<dots> = w * (1 + 1 / 2 ^ 53)" using ipos by simp
  finally have p_hi: "iw * s \<le> w * (1 + 1 / 2 ^ 53)" .
  have "w * (1 + 1 / 2 ^ 53) \<le> 2 ^ 1023 * (1 + 1 / 2 ^ 53)" using hi by (intro mult_right_mono) simp_all
  then have p2: "iw * s \<le> 2 ^ 1023 * (1 + 1 / 2 ^ 53)" using p_hi by linarith
  have "1 * s \<le> iw * s" using iw spos by (intro mult_right_mono) simp_all
  then have p1: "min_normal \<le> iw * s" using s(1) by simp
  note P = js_round_normal [OF p1 p2]
  show "js_round (iw * s) = Num (fl (iw * s))" by (rule P(1))
  show "\<bar>fl (iw * s) - iw * s\<bar> \<le> iw * s / 2 ^ 53" by (rule P(3))
  have "fl (iw * s) - iw * s \<le> iw * s / 2 ^ 53" using P(3) by linarith
  then have "fl (iw * s) \<le> (iw * s) * (1 + 1 / 2 ^ 53)" by (simp add: algebra_simps)
  also have "\<dots> \<le> (w * (1 + 1 / 2 ^ 53)) * (1 + 1 / 2 ^ 53)" using p_hi by (intro mult_right_mono) simp_all
  also have "\<dots> = w * ((1 + 1 / 2 ^ 53) * (1 + 1 / 2 ^ 53))" by simp
  also have "\<dots> \<le> w * (1 + 1 / 2 ^ 51)" using wpos by (intro mult_left_mono) simp_all
  finally show "fl (iw * s) \<le> w * (1 + 1 / 2 ^ 51)" .
qed


section \<open>Properties of the string operations\<close>

lemma match_literal_iff: "match_literal p s = Some r \<longleftrightarrow> s = p @ r"
  by (induction p s rule: match_literal.induct) auto

lemma js_includes_iff: "js_includes v s \<longleftrightarrow> (\<exists>p q. v = p @ s @ q)"
proof (induction v)
  case Nil
  then show ?case by auto
next
  case (Cons c cs)
  show ?case
  proof
    assume "js_includes (c # cs) s"
    then consider "match_literal s (c # cs) \<noteq> None" | "js_includes cs s" by auto
    then show "\<exists>p q. c # cs = p @ s @ q"
    proof cases
      case 1
      then obtain r where "c # cs = s @ r" by (auto simp: match_literal_iff)
      then have "c # cs = [] @ s @ r" by simp
      then show ?thesis by blast
    next
      case 2
      then obtain p q where "cs = p @ s @ q" using Cons.IH by blast
      then have "c # cs = (c # p) @ s @ q" by simp
      then show ?thesis by blast
    qed
  next
    assume "\<exists>p q. c # cs = p @ s @ q"
    then obtain p q where pq: "c # cs = p @ s @ q" by blast
    show "js_includes (c # cs) s"
    proof (cases p)
      case Nil
      with pq have "match_literal s (c # cs) = Some q" by (simp add: match_literal_iff)
      then show ?thesis by simp
    next
      case (Cons d ds)
      with pq have "cs = ds @ s @ q" by simp
      then have "js_includes cs s" using Cons.IH by blast
      then show ?thesis by simp
    qed
  qed
qed

lemma word_char_semicolon: "\<not> word_char (CHR '';'')"
  by (simp add: word_char_def)

lemma strip_data_uri_match:
  assumes "m \<noteq> []" "list_all word_char m"
  shows "strip_data_uri (''data:image/'' @ m @ '';base64,'' @ rest) = rest"
proof -
  let ?r = "m @ '';base64,'' @ rest"
  have ml: "match_literal ''data:image/'' (''data:image/'' @ ?r) = Some ?r"
    by (simp only: match_literal_iff)
  have all: "\<forall>c\<in>set m. word_char c" using assms(2) by (simp add: list_all_iff)
  have tw: "takeWhile word_char ?r = m"
    using all word_char_semicolon by (simp add: takeWhile_tail)
  have dw: "dropWhile word_char ?r = '';base64,'' @ rest"
    using all word_char_semicolon by (simp add: dropWhile_append)
  have ml2: "match_literal '';base64,'' ('';base64,'' @ rest) = Some rest"
    by (simp only: match_literal_iff)
  show ?thesis
    unfolding strip_data_uri_def ml option.case tw dw ml2 using assms(1) by (simp only: if_False)
qed

lemma strip_data_uri_cases:
  "strip_data_uri v = v \<or>
   (\<exists>m. m \<noteq> [] \<and> list_all word_char m \<and> v = ''data:image/'' @ m @ '';base64,'' @ strip_data_uri v)"
proof (cases "match_literal ''data:image/'' v")
  case None
  have "strip_data_uri v = v" unfolding strip_data_uri_def None by (simp only: option.case)
  then show ?thesis by (rule disjI1)
next
  case (Some r)
  then have v: "v = ''data:image/'' @ r" by (simp only: match_literal_iff)
  show ?thesis
  proof (cases "takeWhile word_char r = []")
    case True
    have "strip_data_uri v = v"
      unfolding strip_data_uri_def Some option.case using True by (simp only: simp_thms if_True)
    then show ?thesis by (rule disjI1)
  next
    case False
    show ?thesis
    proof (cases "match_literal '';base64,'' (dropWhile word_char r)")
      case None
      have "strip_data_uri v = v"
        unfolding strip_data_uri_def Some option.case None using False by (simp only: if_False)
      then show ?thesis by (rule disjI1)
    next
      case (Some rest)
      then have d: "dropWhile word_char r = '';base64,'' @ rest" by (simp only: match_literal_iff)
      have s: "strip_data_uri v = rest"
        unfolding strip_data_uri_def \<open>match_literal ''data:image/'' v = Some r\<close> option.case Some
        using False by (simp only: if_False)
      have "r = takeWhile word_char r @ dropWhile word_char r" by simp
      then have "v = ''data:image/'' @ takeWhile word_char r @ '';base64,'' @ rest"
        using v d by metis
      moreover have "list_all word_char (takeWhile word_char r)"
        by (simp add: list_all_iff) (meson set_takeWhileD)
      ultimately have "takeWhile word_char r \<noteq> [] \<and> list_all word_char (takeWhile word_char r) \<and>
          v = ''data:image/'' @ takeWhile word_char r @ '';base64,'' @ strip_data_uri v"
        using False s by metis
      then show ?thesis by blast
    qed
  qed
qed

section \<open>Properties of the field loop\<close>

lemma render_fields_append:
  "render_fields e doc (xs @ ys) =
     (case render_fields e doc xs of Inl err \<Rightarrow> Inl err | Inr d \<Rightarrow> render_fields e d ys)"
  by (induction xs arbitrary: doc) (auto split: sum.splits)

lemma page_index_length:
  "length (pages d) = length (pages d') \<Longrightarrow> page_index d p = page_index d' p"
  by (simp add: page_index_def split: js_number.splits)

lemma render_field_length:
  "render_field e doc f = Inr d \<Longrightarrow> length (pages d) = length (pages doc)"
  by (auto simp: render_field_def Let_def split: option.splits sum.splits prod.splits)

lemma render_fields_length:
  "render_fields e doc fs = Inr d \<Longrightarrow> length (pages d) = length (pages doc)"
  by (induction fs arbitrary: doc) (auto split: sum.splits dest: render_field_length)

section \<open>Properties of paths\<close>

lemma split_path_not_Nil: "split_path s \<noteq> []"
  by (induction s) (auto split: list.splits)

lemma split_path_no_slash: "CHR ''/'' \<notin> set t \<Longrightarrow> split_path t = [t]"
  by (induction t) auto

lemma split_path_append:
  "CHR ''/'' \<notin> set t \<Longrightarrow>
     split_path (s @ t) = butlast (split_path s) @ [last (split_path s) @ t]"
proof (induction s)
  case Nil
  then show ?case by (simp add: split_path_no_slash)
next
  case (Cons c s)
  obtain seg segs where ss: "split_path s = seg # segs"
    using split_path_not_Nil [of s] by (cases "split_path s") auto
  show ?case
  proof (cases "c = CHR ''/''")
    case True
    then show ?thesis using Cons ss by simp
  next
    case False
    then show ?thesis using Cons ss by (cases segs) auto
  qed
qed

lemma last_split_path_append:
  "CHR ''/'' \<notin> set t \<Longrightarrow> last (split_path (s @ t)) = last (split_path s) @ t"
  by (simp add: split_path_append)

lemma foldl_enter_last:
  assumes "seg \<noteq> []" "seg \<noteq> ''.''" "seg \<noteq> ''..''"
  shows "foldl enter up (segs @ [seg]) = seg # foldl enter up segs"
  using assms by (simp add: enter_def)

lemma last_path_join:
  assumes "last (split_path name) \<noteq> []" "last (split_path name) \<noteq> ''.''"
      and "last (split_path name) \<noteq> ''..''"
  shows "path_join dir name \<noteq> [] \<and> last (path_join dir name) = last (split_path name)"
proof -
  have "split_path name = butlast (split_path name) @ [last (split_path name)]"
    using split_path_not_Nil [of name] by simp
  then have "foldl enter (rev dir) (split_path name) =
      last (split_path name) # foldl enter (rev dir) (butlast (split_path name))"
    using foldl_enter_last [OF assms] by metis
  then show ?thesis by (simp add: path_join_def)
qed

lemma last_path_join_suffix:
  assumes "CHR ''/'' \<notin> set suffix" "4 \<le> length suffix"
  shows "last (path_join dir (pid @ suffix)) = last (split_path pid) @ suffix"
proof -
  have l: "last (split_path (pid @ suffix)) = last (split_path pid) @ suffix"
    using assms(1) by (rule last_split_path_append)
  define x where "x = last (split_path pid) @ suffix"
  have "3 < length x" using assms(2) by (simp add: x_def)
  then have n: "x \<noteq> []" "x \<noteq> ''.''" "x \<noteq> ''..''" by auto
  note m = n [unfolded x_def, folded l]
  show ?thesis using last_path_join [OF m, of dir] l by simp
qed

text \<open>The file a finalize writes is never the file it reads.\<close>

lemma output_is_not_original:
  "path_join d1 (pid @ ''-final.pdf'') \<noteq> path_join d2 (pid @ ''.pdf'')"
proof
  assume "path_join d1 (pid @ ''-final.pdf'') = path_join d2 (pid @ ''.pdf'')"
  then have "last (path_join d1 (pid @ ''-final.pdf'')) = last (path_join d2 (pid @ ''.pdf''))"
    by simp
  then have "last (split_path pid) @ ''-final.pdf'' = last (split_path pid) @ ''.pdf''"
    by (simp add: last_path_join_suffix)
  then show False by simp
qed

lemma digit_range: "d < 10 \<Longrightarrow> digit d \<in> set ''0123456789''"
  unfolding digit_def by (rule nth_mem) simp

lemma to_decimal_digits: "set (to_decimal n) \<subseteq> set ''0123456789''"
proof (induction n rule: to_decimal.induct)
  case (1 n)
  show ?case
  proof (cases "n < 10")
    case True
    then show ?thesis using digit_range [of n] by (subst to_decimal.simps) simp
  next
    case False
    have "n mod 10 < 10" by simp
    then have "digit (n mod 10) \<in> set ''0123456789''" by (rule digit_range)
    then show ?thesis using False 1 by (subst to_decimal.simps) simp
  qed
qed

lemma to_decimal_not_Nil: "to_decimal n \<noteq> []"
  by (subst to_decimal.simps) simp

text \<open>The file a finalize writes is never a file an upload has written.\<close>

lemma output_is_not_upload:
  "path_join d1 (pid @ ''-final.pdf'') \<noteq> path_join d2 (to_decimal n @ ''.pdf'')"
proof
  assume "path_join d1 (pid @ ''-final.pdf'') = path_join d2 (to_decimal n @ ''.pdf'')"
  then have "last (path_join d1 (pid @ ''-final.pdf'')) = last (path_join d2 (to_decimal n @ ''.pdf''))"
    by simp
  then have "last (split_path pid) @ ''-final.pdf'' = last (split_path (to_decimal n)) @ ''.pdf''"
    by (simp add: last_path_join_suffix)
  moreover have "CHR ''/'' \<notin> set (to_decimal n)" using to_decimal_digits [of n] by auto
  ultimately have "(last (split_path pid) @ ''-final'') @ ''.pdf'' = to_decimal n @ ''.pdf''"
    by (simp add: split_path_no_slash)
  then have "last (split_path pid) @ ''-final'' = to_decimal n" by (simp only: append_same_eq)
  then have "CHR ''l'' \<in> set (to_decimal n)" by (metis in_set_conv_decomp append_assoc append_Cons append_Nil)
  then show False using to_decimal_digits [of n] by auto
qed

section \<open>Skipped fields\<close>

lemma render_fields_skip:
  assumes "\<And>d. length (pages d) = length (pages doc) \<Longrightarrow> render_field e d f = Inr d"
  shows "render_fields e doc (pre @ f # post) = render_fields e doc (pre @ post)"
proof (cases "render_fields e doc pre")
  case (Inl err)
  then show ?thesis by (simp add: render_fields_append)
next
  case (Inr d)
  then have "render_field e d f = Inr d"
    using assms render_fields_length by blast
  then show ?thesis using Inr by (simp add: render_fields_append)
qed

lemma render_field_no_page:
  "page_index doc (fpage f) = None \<Longrightarrow> render_field e doc f = Inr doc"
  by (simp add: render_field_def)

text \<open>
  Claim C4. A field whose page index has no corresponding page is skipped without an
  error: the iteration returns the document as it is, and the loop over a list that
  contains the field gives what it gives on the list without it, so the fields before
  and after it are processed as if it were absent.
\<close>

theorem missing_page_is_skipped:
  assumes "page_index doc (fpage f) = None"
  shows "render_field e doc f = Inr doc \<and>
         render_fields e doc (pre @ f # post) = render_fields e doc (pre @ post)"
proof
  show "render_field e doc f = Inr doc" using assms by (rule render_field_no_page)
next
  have "render_field e d f = Inr d" if "length (pages d) = length (pages doc)" for d
  proof -
    have "page_index d (fpage f) = None" using assms page_index_length [OF that] by simp
    then show ?thesis by (rule render_field_no_page)
  qed
  then show "render_fields e doc (pre @ f # post) = render_fields e doc (pre @ post)"
    by (rule render_fields_skip)
qed

lemma page_index_blank_3: "page_index blank_doc (Num 3) = None"
  by code_simp

theorem missing_page_is_skipped_witness:
  "page_index blank_doc (fpage (example_field ''text'' ''Hello'' 3)) = None \<and>
   render_field example_env blank_doc (example_field ''text'' ''Hello'' 3) = Inr blank_doc \<and>
   render_fields example_env blank_doc
     ([example_field ''text'' ''A'' 1] @ example_field ''text'' ''Hello'' 3 # [example_field ''date'' ''B'' 1]) =
   render_fields example_env blank_doc ([example_field ''text'' ''A'' 1] @ [example_field ''date'' ''B'' 1])"
proof -
  have h: "page_index blank_doc (fpage (example_field ''text'' ''Hello'' 3)) = None"
    using page_index_blank_3 by (simp add: example_field_def)
  show ?thesis
    using h missing_page_is_skipped [OF h, of example_env "[example_field ''text'' ''A'' 1]" "[example_field ''date'' ''B'' 1]"]
    by blast
qed

lemma render_field_unknown_type:
  assumes "ftype f \<noteq> ''text''" "ftype f \<noteq> ''date''" "ftype f \<noteq> ''signature''"
  shows "render_field e doc f = Inr doc"
proof (cases "page_index doc (fpage f)")
  case None
  then show ?thesis by (rule render_field_no_page)
next
  case (Some k)
  have "doc\<lparr>pages := (pages doc)[k := pages doc ! k], embedded := embedded doc\<rparr> = doc" by simp
  then show ?thesis
    using assms Some by (simp add: render_field_def render_text_def render_signature_def Let_def)
qed

text \<open>
  Claim C10. A field whose type is none of \<^verbatim>\<open>text\<close>, \<^verbatim>\<open>date\<close> and \<^verbatim>\<open>signature\<close> draws
  nothing and raises nothing, whether or not its page exists: the iteration returns the
  document unchanged and the other fields are processed as if the field were absent.
\<close>

theorem unknown_type_draws_nothing:
  assumes "ftype f \<notin> {''text'', ''date'', ''signature''}"
  shows "render_field e doc f = Inr doc \<and>
         render_fields e doc (pre @ f # post) = render_fields e doc (pre @ post)"
proof -
  have t: "ftype f \<noteq> ''text''" "ftype f \<noteq> ''date''" "ftype f \<noteq> ''signature''"
    using assms by auto
  have all: "render_field e d f = Inr d" for d
    using t by (rule render_field_unknown_type)
  then have "render_fields e doc (pre @ f # post) = render_fields e doc (pre @ post)"
    by (intro render_fields_skip)
  then show ?thesis using all by simp
qed

theorem unknown_type_draws_nothing_witness:
  "ftype (example_field ''checkbox'' ''x'' 1) \<notin> {''text'', ''date'', ''signature''} \<and>
   render_field example_env blank_doc (example_field ''checkbox'' ''x'' 1) = Inr blank_doc \<and>
   render_fields example_env blank_doc
     ([example_field ''text'' ''A'' 1] @ example_field ''checkbox'' ''x'' 1 # [example_field ''date'' ''B'' 1]) =
   render_fields example_env blank_doc ([example_field ''text'' ''A'' 1] @ [example_field ''date'' ''B'' 1])"
proof -
  have h: "ftype (example_field ''checkbox'' ''x'' 1) \<notin> {''text'', ''date'', ''signature''}"
    by (simp add: example_field_def)
  show ?thesis
    using h unknown_type_draws_nothing [OF h, of example_env blank_doc "[example_field ''text'' ''A'' 1]" "[example_field ''date'' ''B'' 1]"]
    by blast
qed

section \<open>Example values\<close>

lemma example_rect:
  "resolve (example_field t v p) (Num 612) (Num 792) =
     \<lparr>rect_x = Num (4306567143673037 / 70368744177664),
      rect_y = Num (5921529822550425 / 8796093022208),
      rect_w = Num (6459850715509555 / 35184372088832),
      rect_h = Num (5573204538870989 / 140737488355328)\<rparr>"
proof -
  have "js_mul (js_literal (1 / 10)) (Num 612) = Num (4306567143673037 / 70368744177664)"
    by code_simp
  moreover have "js_sub (js_sub (Num 792) (js_mul (js_literal (1 / 10)) (Num 792)))
       (js_mul (js_literal (5 / 100)) (Num 792)) = Num (5921529822550425 / 8796093022208)"
    by code_simp
  moreover have "js_mul (js_literal (3 / 10)) (Num 612) = Num (6459850715509555 / 35184372088832)"
    by code_simp
  moreover have "js_mul (js_literal (5 / 100)) (Num 792) = Num (5573204538870989 / 140737488355328)"
    by code_simp
  ultimately show ?thesis by (simp add: resolve_def example_field_def)
qed

lemma example_baseline:
  "js_add (Num (5921529822550425 / 8796093022208))
     (js_mul (Num (5573204538870989 / 140737488355328)) (js_literal (35 / 100))) =
   Num (1510860917959557 / 2199023255552)"
  by code_simp

lemma example_baseline_normal:
  "js_add (Num (5921529822550425 / 8796093022208))
     (js_mul (Num (5573204538870989 / 140737488355328)) (js_literal (7 / 20))) =
   Num (1510860917959557 / 2199023255552)"
  using example_baseline by simp

lemma page_index_blank_1: "page_index blank_doc (Num 1) = Some 0"
  by code_simp

lemma example_paths:
  "path_join (ORIGINAL_DIR example_env) (''1'' @ ''.pdf'') = [''app'', ''uploads'', ''original'', ''1.pdf'']"
  "path_join (SIGNED_DIR example_env) (''1'' @ ''-final.pdf'') = [''app'', ''uploads'', ''signed'', ''1-final.pdf'']"
  by (simp_all add: path_join_def ORIGINAL_DIR_def SIGNED_DIR_def UPLOAD_DIR_def example_env_def enter_def)

section \<open>Failure of a field\<close>

lemma render_fields_first_failure:
  assumes "render_fields e doc pre = Inr doc1" "render_field e doc1 f = Inl err"
  shows "render_fields e doc (pre @ f # post) = Inl err"
  using assms by (simp add: render_fields_append)

text \<open>
  Claim C2. Finalize is fail-atomic with respect to rendering: when the fields before
  field \<open>f\<close> render and the rendering of \<open>f\<close> raises, whatever fields follow, the
  handler answers with status 500 and returns the server as it was, so no finalized file
  is written and no audit record is created.
\<close>

theorem finalize_fail_atomic:
  assumes "files s (path_join (ORIGINAL_DIR e) (pid @ ''.pdf'')) = Some originalBytes"
      and "load e originalBytes = Some doc"
      and "render_fields e doc pre = Inr doc1"
      and "render_field e doc1 f = Inl err"
  shows "finalize_pdf e now s pid (pre @ f # post) = (s, Failed 500 ''PDF finalization failed'')"
proof -
  have "render_fields e doc (pre @ f # post) = Inl err"
    using assms(3,4) by (rule render_fields_first_failure)
  then have "finalize_body e now s pid originalBytes (pre @ f # post) = (s, Inl err)"
    using assms(2) by (simp add: finalize_body_def)
  then show ?thesis
    using assms(1) by (simp add: finalize_pdf_def)
qed

lemma render_field_decode_failure:
  assumes "page_index doc (fpage f) = Some k"
      and "ftype f = ''signature''" and "fvalue f \<noteq> []"
      and "embed_signature e (fvalue f) = None"
  shows "render_field e doc f = Inl DecodeFailed"
  using assms by (simp add: render_field_def render_text_def render_signature_def Let_def)

lemma example_text_ok:
  "render_fields example_env blank_doc [example_field ''text'' ''Hello'' 1] =
     Inr (blank_doc\<lparr>pages := [\<lparr>width = Num 612, height = Num 792, content =
        [DrawText ''Hello''
           \<lparr>text_x = Num (4306567143673037 / 70368744177664),
            text_y = Num (1510860917959557 / 2199023255552),
            text_size = Num 11, text_color = (Num 0, Num 0, Num 0)\<rparr>]\<rparr>]\<rparr>)"
proof -
  have pi: "page_index blank_doc (fpage (example_field ''text'' ''Hello'' 1)) = Some 0"
    using page_index_blank_1 by (simp add: example_field_def)
  have r: "resolve (example_field ''text'' ''Hello'' 1) (width (pages blank_doc ! 0)) (height (pages blank_doc ! 0)) =
     \<lparr>rect_x = Num (4306567143673037 / 70368744177664),
      rect_y = Num (5921529822550425 / 8796093022208),
      rect_w = Num (6459850715509555 / 35184372088832),
      rect_h = Num (5573204538870989 / 140737488355328)\<rparr>"
    using example_rect [of "''text''" "''Hello''" 1] by (simp add: blank_doc_def)
  have t: "ftype (example_field ''text'' ''Hello'' 1) = ''text''"
    "fvalue (example_field ''text'' ''Hello'' 1) = ''Hello''"
    by (simp_all add: example_field_def)
  have enc: "encodes example_env ''Hello''" by (simp add: example_env_def)
  show ?thesis
    by (simp add: render_field_def pi r t enc render_text_def render_signature_def drawText_def
        rgb_def example_baseline_normal Let_def) (simp add: blank_doc_def)
qed

lemma example_embed_fails: "embed_signature example_env ''data:image/png;base64,'' = None"
  by code_simp

theorem finalize_fail_atomic_witness:
  "(\<exists>doc1. render_fields example_env blank_doc [example_field ''text'' ''Hello'' 1] = Inr doc1 \<and>
      render_field example_env doc1 (example_field ''signature'' ''data:image/png;base64,'' 1) =
        Inl DecodeFailed) \<and>
   finalize_pdf example_env 7 stored ''1''
     ([example_field ''text'' ''Hello'' 1] @
      example_field ''signature'' ''data:image/png;base64,'' 1 # [example_field ''date'' ''today'' 1]) =
     (stored, Failed 500 ''PDF finalization failed'')"
proof -
  obtain doc1 where h3: "render_fields example_env blank_doc [example_field ''text'' ''Hello'' 1] = Inr doc1"
    using example_text_ok by blast
  have h1: "files stored (path_join (ORIGINAL_DIR example_env) (''1'' @ ''.pdf'')) = Some [1, 2, 3]"
    unfolding example_paths by (simp add: stored_def empty_server_def)
  have h2: "load example_env [1, 2, 3] = Some blank_doc"
    by (simp add: example_env_def)
  have "length (pages doc1) = length (pages blank_doc)"
    using h3 by (rule render_fields_length)
  then have "page_index doc1 (Num 1) = Some 0"
    using page_index_blank_1 page_index_length by metis
  then have pi: "page_index doc1 (fpage (example_field ''signature'' ''data:image/png;base64,'' 1)) = Some 0"
    by (simp add: example_field_def)
  have h4: "render_field example_env doc1 (example_field ''signature'' ''data:image/png;base64,'' 1) = Inl DecodeFailed"
    using pi example_embed_fails by (intro render_field_decode_failure) (simp_all add: example_field_def)
  show ?thesis
    using h3 h4 finalize_fail_atomic [OF h1 h2 h3 h4, of 7 "[example_field ''date'' ''today'' 1]"]
    by blast
qed

section \<open>Text and date fields\<close>

text \<open>
  Claim C6 as stated fails: a date field with a non-empty value whose page does not exist
  is of type \<^verbatim>\<open>date\<close> and draws nothing; and for a text field with a non-empty value
  whose descriptor has no \<^verbatim>\<open>xRatio\<close>, so that \<open>x\<close> is \<open>NaN\<close>, \<^verbatim>\<open>drawText\<close> raises instead
  of drawing.
\<close>

theorem date_on_missing_page_not_drawn:
  "ftype (example_field ''date'' ''2024-01-01'' 2) = ''date'' \<and>
   fvalue (example_field ''date'' ''2024-01-01'' 2) \<noteq> [] \<and>
   render_field example_env blank_doc (example_field ''date'' ''2024-01-01'' 2) = Inr blank_doc \<and>
   render_field example_env blank_doc ((example_field ''text'' ''Hello'' 1)\<lparr>xRatio := NaN\<rparr>) =
     Inl InvalidNumber"
proof -
  have "page_index blank_doc (Num 2) = None" by code_simp
  moreover have "render_field example_env blank_doc ((example_field ''text'' ''Hello'' 1)\<lparr>xRatio := NaN\<rparr>) =
     Inl InvalidNumber"
    by code_simp
  ultimately show ?thesis by (simp add: render_field_def example_field_def)
qed

text \<open>
  Claim C6, amended. For a field of type \<^verbatim>\<open>text\<close> or \<^verbatim>\<open>date\<close>: without a page for it, or
  with an empty value, nothing is drawn; with a page and a non-empty value \<^verbatim>\<open>drawText\<close> is
  called once, with the value, the horizontal start \<open>rect.x\<close>, the baseline
  \<open>rect.y + rect.h * 0.35\<close>, size 11 and the colour \<open>rgb(0, 0, 0)\<close>. The call adds one text
  operation to the page, unless a coordinate is \<open>NaN\<close> or the font cannot encode the value:
  then it raises and nothing is drawn.
\<close>

theorem text_and_date_rendering:
  assumes "ftype f = ''text'' \<or> ftype f = ''date''"
  shows "render_field e doc f =
           (case page_index doc (fpage f) of
              None \<Rightarrow> Inr doc
            | Some k \<Rightarrow>
                (let pg = pages doc ! k;
                     r = resolve f (width pg) (height pg);
                     x = rect_x r;
                     y = js_add (rect_y r) (js_mul (rect_h r) (js_literal (35 / 100)))
                 in if fvalue f = [] then Inr doc
                    else if x = NaN \<or> y = NaN then Inl InvalidNumber
                    else if encodes e (fvalue f)
                    then Inr (doc\<lparr>pages := (pages doc)[k := pg\<lparr>content := content pg @
                           [DrawText (fvalue f)
                              \<lparr>text_x = x, text_y = y, text_size = Num 11,
                               text_color = (Num 0, Num 0, Num 0)\<rparr>]\<rparr>]\<rparr>)
                    else Inl EncodeFailed))"
proof (cases "page_index doc (fpage f)")
  case None
  then show ?thesis by (simp add: render_field_def)
next
  case (Some k)
  have ns: "ftype f \<noteq> ''signature''" using assms by auto
  have id: "doc\<lparr>pages := (pages doc)[k := pages doc ! k], embedded := embedded doc\<rparr> = doc" by simp
  show ?thesis
    using assms ns id Some
    by (auto simp: render_field_def render_text_def render_signature_def drawText_def rgb_def Let_def)
qed

theorem text_and_date_rendering_witness:
  "render_field example_env blank_doc (example_field ''date'' ''2024-01-01'' 1) =
     Inr (blank_doc\<lparr>pages := [\<lparr>width = Num 612, height = Num 792, content =
        [DrawText ''2024-01-01''
           \<lparr>text_x = Num (4306567143673037 / 70368744177664),
            text_y = Num (1510860917959557 / 2199023255552),
            text_size = Num 11, text_color = (Num 0, Num 0, Num 0)\<rparr>]\<rparr>]\<rparr>) \<and>
   render_field example_env blank_doc (example_field ''text'' [] 1) = Inr blank_doc"
proof -
  have h1: "ftype (example_field ''date'' ''2024-01-01'' 1) = ''text'' \<or> ftype (example_field ''date'' ''2024-01-01'' 1) = ''date''"
    by (simp add: example_field_def)
  have p1: "page_index blank_doc (fpage (example_field ''date'' ''2024-01-01'' 1)) = Some 0"
    using page_index_blank_1 by (simp add: example_field_def)
  have g1: "ftype (example_field ''text'' [] 1) = ''text'' \<or> ftype (example_field ''text'' [] 1) = ''date''"
    by (simp add: example_field_def)
  have p2: "page_index blank_doc (fpage (example_field ''text'' [] 1)) = Some 0"
    using page_index_blank_1 by (simp add: example_field_def)
  have enc: "encodes example_env ''2024-01-01''" by (simp add: example_env_def)
  have v: "fvalue (example_field ''date'' ''2024-01-01'' 1) = ''2024-01-01''" "fvalue (example_field ''text'' [] 1) = []"
    by (simp_all add: example_field_def)
  have r: "resolve (example_field ''date'' ''2024-01-01'' 1) (width (pages blank_doc ! 0)) (height (pages blank_doc ! 0)) =
     \<lparr>rect_x = Num (4306567143673037 / 70368744177664),
      rect_y = Num (5921529822550425 / 8796093022208),
      rect_w = Num (6459850715509555 / 35184372088832),
      rect_h = Num (5573204538870989 / 140737488355328)\<rparr>"
    using example_rect [of "''date''" "''2024-01-01''" 1] by (simp add: blank_doc_def)
  have a: "render_field example_env blank_doc (example_field ''date'' ''2024-01-01'' 1) =
     Inr (blank_doc\<lparr>pages := [\<lparr>width = Num 612, height = Num 792, content =
        [DrawText ''2024-01-01''
           \<lparr>text_x = Num (4306567143673037 / 70368744177664),
            text_y = Num (1510860917959557 / 2199023255552),
            text_size = Num 11, text_color = (Num 0, Num 0, Num 0)\<rparr>]\<rparr>]\<rparr>)"
    unfolding text_and_date_rendering [OF h1, of example_env blank_doc] p1
    by (simp add: Let_def r v enc example_baseline_normal) (simp add: blank_doc_def)
  have b: "render_field example_env blank_doc (example_field ''text'' [] 1) = Inr blank_doc"
    unfolding text_and_date_rendering [OF g1, of example_env blank_doc] p2
    by (simp add: Let_def v)
  show ?thesis using a b by simp
qed

section \<open>Signature values\<close>

text \<open>
  Claim C5. For a signature field with a non-empty value the handler decodes the value
  with the prefix \<^verbatim>\<open>data:image/<mime>;base64,\<close> removed (\<^verbatim>\<open><mime>\<close> being a non-empty run of
  letters, digits and underscores, as \<^verbatim>\<open>\w+\<close> matches it) and the value itself when it has
  no such prefix; it passes the bytes to the JPEG decoder when the original value
  contains \<^verbatim>\<open>jpeg\<close> somewhere and to the PNG decoder otherwise. A decoder that raises ends
  the iteration with its exception; the decoded image goes to \<^verbatim>\<open>drawImage\<close>.
\<close>

theorem signature_decoding:
  assumes "ftype f = ''signature''" and "fvalue f \<noteq> []"
  shows "embed_signature e (fvalue f) =
           (if (\<exists>p q. fvalue f = p @ ''jpeg'' @ q)
            then embedJpg e (base64 e (strip_data_uri (fvalue f)))
            else embedPng e (base64 e (strip_data_uri (fvalue f)))) \<and>
         render_signature e imgs pg r f =
           (case embed_signature e (fvalue f) of
              None \<Rightarrow> Inl DecodeFailed
            | Some img \<Rightarrow>
                (case drawImage pg img (aspect_fit r img) of
                   Inl err \<Rightarrow> Inl err
                 | Inr pg1 \<Rightarrow> Inr (imgs @ [img], pg1))) \<and>
         (\<forall>m rest. m \<noteq> [] \<and> list_all word_char m \<and>
              fvalue f = ''data:image/'' @ m @ '';base64,'' @ rest \<longrightarrow>
            strip_data_uri (fvalue f) = rest) \<and>
         ((\<nexists>m rest. m \<noteq> [] \<and> list_all word_char m \<and>
              fvalue f = ''data:image/'' @ m @ '';base64,'' @ rest) \<longrightarrow>
            strip_data_uri (fvalue f) = fvalue f)"
proof (intro conjI)
  show "embed_signature e (fvalue f) =
           (if (\<exists>p q. fvalue f = p @ ''jpeg'' @ q)
            then embedJpg e (base64 e (strip_data_uri (fvalue f)))
            else embedPng e (base64 e (strip_data_uri (fvalue f))))"
    by (simp only: embed_signature_def js_includes_iff Let_def)
next
  show "render_signature e imgs pg r f =
           (case embed_signature e (fvalue f) of
              None \<Rightarrow> Inl DecodeFailed
            | Some img \<Rightarrow>
                (case drawImage pg img (aspect_fit r img) of
                   Inl err \<Rightarrow> Inl err
                 | Inr pg1 \<Rightarrow> Inr (imgs @ [img], pg1)))"
    using assms by (simp add: render_signature_def)
next
  show "\<forall>m rest. m \<noteq> [] \<and> list_all word_char m \<and>
              fvalue f = ''data:image/'' @ m @ '';base64,'' @ rest \<longrightarrow>
            strip_data_uri (fvalue f) = rest"
    using strip_data_uri_match by metis
next
  show "(\<nexists>m rest. m \<noteq> [] \<and> list_all word_char m \<and>
              fvalue f = ''data:image/'' @ m @ '';base64,'' @ rest) \<longrightarrow>
            strip_data_uri (fvalue f) = fvalue f"
    using strip_data_uri_cases [of "fvalue f"] by blast
qed

theorem signature_decoding_witness:
  "strip_data_uri ''data:image/jpeg;base64,QUJD'' = ''QUJD'' \<and>
   embed_signature example_env ''data:image/jpeg;base64,QUJD'' =
     Some \<lparr>img_format = Jpeg, img_bytes = map of_char ''QUJD'',
           img_width = Num 200, img_height = Num 100\<rparr>"
proof -
  let ?f = "example_field ''signature'' ''data:image/jpeg;base64,QUJD'' 1"
  have v: "fvalue ?f = ''data:image/jpeg;base64,QUJD''" by (simp add: example_field_def)
  have h1: "ftype ?f = ''signature''" by (simp add: example_field_def)
  have h2: "fvalue ?f \<noteq> []" by (simp add: example_field_def)
  have wc: "''jpeg'' \<noteq> [] \<and> list_all word_char ''jpeg'' \<and>
      fvalue ?f = ''data:image/'' @ ''jpeg'' @ '';base64,'' @ ''QUJD''"
    by (simp add: v word_char_def)
  have inc: "\<exists>p q. fvalue ?f = p @ ''jpeg'' @ q"
    using wc by blast
  note inst = signature_decoding [OF h1 h2, of example_env "[]" "hd (pages blank_doc)" square_rect]
  have s: "strip_data_uri (fvalue ?f) = ''QUJD''"
    using inst wc by blast
  have emb: "embedJpg example_env (base64 example_env ''QUJD'') =
      Some \<lparr>img_format = Jpeg, img_bytes = map of_char ''QUJD'', img_width = Num 200, img_height = Num 100\<rparr>"
    by (simp add: example_env_def example_image_def)
  have "embed_signature example_env (fvalue ?f) =
      embedJpg example_env (base64 example_env (strip_data_uri (fvalue ?f)))"
    using inst inc by (simp only: if_True)
  then show ?thesis using s emb v by simp
qed

section \<open>Audit records\<close>

lemma finalize_pdf_success:
  assumes "finalize_pdf e now s pid fs = (s1, Finalized url oh fh)"
  shows "audits s1 = audits s @ [\<lparr>pdfId = pid, originalHash = oh, finalHash = fh, createdAt = now\<rparr>] \<and>
         (\<exists>b. files s (path_join (ORIGINAL_DIR e) (pid @ ''.pdf'')) = Some b \<and> oh = sha256 e b) \<and>
         (\<exists>b. files s1 = (files s)(path_join (SIGNED_DIR e) (pid @ ''-final.pdf'') \<mapsto> b))"
  using assms
  by (auto simp: finalize_pdf_def finalize_body_def Let_def
           split: option.splits sum.splits if_splits)

lemma finalize_pdf_keeps_records:
  "take (length (audits s)) (audits (fst (finalize_pdf e now s pid fs))) = audits s"
  by (auto simp: finalize_pdf_def finalize_body_def Let_def
           split: option.splits sum.splits if_splits)

lemma upload_pdf_keeps_audits:
  "audits (fst (upload_pdf e now s file)) = audits s"
  by (auto simp: upload_pdf_def Let_def split: option.splits)

lemma finalize_pdf_keeps_files:
  assumes "finalize_pdf e now s pid fs = (s1, Finalized url oh fh)"
  shows "files s1 (path_join (ORIGINAL_DIR e) (pid @ ''.pdf'')) =
           files s (path_join (ORIGINAL_DIR e) (pid @ ''.pdf''))"
    and "files s1 (path_join (ORIGINAL_DIR e) (to_decimal n @ ''.pdf'')) =
           files s (path_join (ORIGINAL_DIR e) (to_decimal n @ ''.pdf''))"
proof -
  obtain b where f: "files s1 = (files s)(path_join (SIGNED_DIR e) (pid @ ''-final.pdf'') \<mapsto> b)"
    using finalize_pdf_success [OF assms] by blast
  show "files s1 (path_join (ORIGINAL_DIR e) (pid @ ''.pdf'')) =
           files s (path_join (ORIGINAL_DIR e) (pid @ ''.pdf''))"
    using output_is_not_original [of "SIGNED_DIR e" pid "ORIGINAL_DIR e"] by (simp add: f)
  show "files s1 (path_join (ORIGINAL_DIR e) (to_decimal n @ ''.pdf'')) =
           files s (path_join (ORIGINAL_DIR e) (to_decimal n @ ''.pdf''))"
    using output_is_not_upload [of "SIGNED_DIR e" pid "ORIGINAL_DIR e" n] by (simp add: f)
qed

lemma finalize_pdf_ok:
  assumes "files s (path_join (ORIGINAL_DIR e) (pid @ ''.pdf'')) = Some b" and "load e b = Some doc"
      and "render_fields e doc fs = Inr doc1" and "write_ok e" and "create_ok e"
  shows "finalize_pdf e now s pid fs =
           (s\<lparr>files := (files s)(path_join (SIGNED_DIR e) (pid @ ''-final.pdf'') \<mapsto> save e doc1),
              audits := audits s @
                [\<lparr>pdfId = pid, originalHash = sha256 e b,
                  finalHash = sha256 e (save e doc1), createdAt = now\<rparr>]\<rparr>,
            Finalized (base_url e @ ''/files/signed/'' @ pid @ ''-final.pdf'')
              (sha256 e b) (sha256 e (save e doc1)))"
  using assms by (simp add: finalize_pdf_def finalize_body_def Let_def)


text \<open>The states reached in the example requests.\<close>

lemma crafted_paths:
  "path_join (ORIGINAL_DIR example_env) (''../original/1'' @ ''.pdf'') = [''app'', ''uploads'', ''original'', ''1.pdf'']"
  "path_join (SIGNED_DIR example_env) (''../original/1'' @ ''-final.pdf'') = [''app'', ''uploads'', ''original'', ''1-final.pdf'']"
  "path_join (ORIGINAL_DIR example_env) (''1-final'' @ ''.pdf'') = [''app'', ''uploads'', ''original'', ''1-final.pdf'']"
  "path_join (SIGNED_DIR example_env) (''1-final'' @ ''-final.pdf'') = [''app'', ''uploads'', ''signed'', ''1-final-final.pdf'']"
  by (simp_all add: path_join_def ORIGINAL_DIR_def SIGNED_DIR_def UPLOAD_DIR_def example_env_def enter_def)

lemma example_env_simps:
  "load example_env b = Some blank_doc"
  "write_ok example_env" "create_ok example_env"
  "base_url example_env = ''http://localhost:5000''"
  "save example_env d = concat (map (\<lambda>pg. [length (content pg)]) (pages d))"
  "sha256 example_env b = to_decimal (sum_list b)"
  by (simp_all add: example_env_def)

lemma example_hashes:
  "to_decimal 0 = ''0''" "to_decimal 1 = ''1''" "to_decimal (Suc 0) = ''1''" "to_decimal 6 = ''6''"
  by (simp_all add: to_decimal.simps digit_def)

lemma crafted_first_eq:
  "crafted_first =
     (\<lparr>files = [[''app'', ''uploads'', ''original'', ''1.pdf''] \<mapsto> [1, 2, 3],
               [''app'', ''uploads'', ''original'', ''1-final.pdf''] \<mapsto> [0]],
       audits = [\<lparr>pdfId = ''../original/1'', originalHash = ''6'', finalHash = ''0'', createdAt = 7\<rparr>]\<rparr>,
      Finalized ''http://localhost:5000/files/signed/../original/1-final.pdf'' ''6'' ''0'')"
proof -
  have f: "files stored (path_join (ORIGINAL_DIR example_env) (''../original/1'' @ ''.pdf'')) = Some [1, 2, 3]"
    unfolding crafted_paths by (simp add: stored_def empty_server_def)
  have r: "render_fields example_env blank_doc [] = Inr blank_doc" by simp
  show ?thesis
    unfolding crafted_first_def
      finalize_pdf_ok [OF f example_env_simps(1) r example_env_simps(2,3)] crafted_paths
    by (simp add: example_env_simps example_hashes stored_def empty_server_def blank_doc_def)
qed

lemma derived_first_eq:
  "derived_first =
     (\<lparr>files = [[''app'', ''uploads'', ''original'', ''1.pdf''] \<mapsto> [1, 2, 3],
               [''app'', ''uploads'', ''original'', ''1-final.pdf''] \<mapsto> [0],
               [''app'', ''uploads'', ''signed'', ''1-final-final.pdf''] \<mapsto> [0]],
       audits = [\<lparr>pdfId = ''../original/1'', originalHash = ''6'', finalHash = ''0'', createdAt = 7\<rparr>,
                 \<lparr>pdfId = ''1-final'', originalHash = ''0'', finalHash = ''0'', createdAt = 8\<rparr>]\<rparr>,
      Finalized ''http://localhost:5000/files/signed/1-final-final.pdf'' ''0'' ''0'')"
proof -
  have f: "files (fst crafted_first) (path_join (ORIGINAL_DIR example_env) (''1-final'' @ ''.pdf'')) = Some [0]"
    unfolding crafted_paths crafted_first_eq by simp
  have r: "render_fields example_env blank_doc [] = Inr blank_doc" by simp
  show ?thesis
    unfolding derived_first_def
      finalize_pdf_ok [OF f example_env_simps(1) r example_env_simps(2,3)] crafted_paths
    by (simp add: example_env_simps example_hashes crafted_first_eq blank_doc_def)
qed

lemma crafted_second_eq:
  "crafted_second =
     (\<lparr>files = [[''app'', ''uploads'', ''original'', ''1.pdf''] \<mapsto> [1, 2, 3],
               [''app'', ''uploads'', ''original'', ''1-final.pdf''] \<mapsto> [1],
               [''app'', ''uploads'', ''signed'', ''1-final-final.pdf''] \<mapsto> [0]],
       audits = [\<lparr>pdfId = ''../original/1'', originalHash = ''6'', finalHash = ''0'', createdAt = 7\<rparr>,
                 \<lparr>pdfId = ''1-final'', originalHash = ''0'', finalHash = ''0'', createdAt = 8\<rparr>,
                 \<lparr>pdfId = ''../original/1'', originalHash = ''6'', finalHash = ''1'', createdAt = 9\<rparr>]\<rparr>,
      Finalized ''http://localhost:5000/files/signed/../original/1-final.pdf'' ''6'' ''1'')"
proof -
  have f: "files (fst derived_first) (path_join (ORIGINAL_DIR example_env) (''../original/1'' @ ''.pdf'')) = Some [1, 2, 3]"
    unfolding crafted_paths derived_first_eq by simp
  show ?thesis
    unfolding crafted_second_def
      finalize_pdf_ok [OF f example_env_simps(1) example_text_ok example_env_simps(2,3)] crafted_paths
    by (simp add: example_env_simps example_hashes derived_first_eq blank_doc_def fun_upd_twist)
qed

lemma derived_second_eq:
  "derived_second =
     (\<lparr>files = [[''app'', ''uploads'', ''original'', ''1.pdf''] \<mapsto> [1, 2, 3],
               [''app'', ''uploads'', ''original'', ''1-final.pdf''] \<mapsto> [1],
               [''app'', ''uploads'', ''signed'', ''1-final-final.pdf''] \<mapsto> [0]],
       audits = [\<lparr>pdfId = ''../original/1'', originalHash = ''6'', finalHash = ''0'', createdAt = 7\<rparr>,
                 \<lparr>pdfId = ''1-final'', originalHash = ''0'', finalHash = ''0'', createdAt = 8\<rparr>,
                 \<lparr>pdfId = ''../original/1'', originalHash = ''6'', finalHash = ''1'', createdAt = 9\<rparr>,
                 \<lparr>pdfId = ''1-final'', originalHash = ''1'', finalHash = ''0'', createdAt = 10\<rparr>]\<rparr>,
      Finalized ''http://localhost:5000/files/signed/1-final-final.pdf'' ''1'' ''0'')"
proof -
  have f: "files (fst crafted_second) (path_join (ORIGINAL_DIR example_env) (''1-final'' @ ''.pdf'')) = Some [1]"
    unfolding crafted_paths crafted_second_eq by simp
  have r: "render_fields example_env blank_doc [] = Inr blank_doc" by simp
  show ?thesis
    unfolding derived_second_def
      finalize_pdf_ok [OF f example_env_simps(1) r example_env_simps(2,3)] crafted_paths
    by (simp add: example_env_simps example_hashes crafted_second_eq blank_doc_def)
qed

text \<open>
  Claim C8 as stated fails in its parenthesis: a finalize can modify bytes stored under
  \<^verbatim>\<open>uploads/original\<close>. With the identifier \<^verbatim>\<open>../original/1\<close> the output path
  \<^verbatim>\<open>path.join(SIGNED_DIR, "../original/1-final.pdf")\<close> is \<^verbatim>\<open>uploads/original/1-final.pdf\<close>, the
  original of the identifier \<^verbatim>\<open>1-final\<close>; its second finalization rewrites that file, and the
  two audit records of \<^verbatim>\<open>1-final\<close> carry different original hashes.
\<close>

theorem finalize_rewrites_an_original:
  "files (fst crafted_first) [''app'', ''uploads'', ''original'', ''1-final.pdf''] = Some [0] \<and>
   files (fst derived_first) [''app'', ''uploads'', ''original'', ''1-final.pdf''] = Some [0] \<and>
   files (fst crafted_second) [''app'', ''uploads'', ''original'', ''1-final.pdf''] = Some [1] \<and>
   audits (fst derived_second) =
     [\<lparr>pdfId = ''../original/1'', originalHash = ''6'', finalHash = ''0'', createdAt = 7\<rparr>,
      \<lparr>pdfId = ''1-final'', originalHash = ''0'', finalHash = ''0'', createdAt = 8\<rparr>,
      \<lparr>pdfId = ''../original/1'', originalHash = ''6'', finalHash = ''1'', createdAt = 9\<rparr>,
      \<lparr>pdfId = ''1-final'', originalHash = ''1'', finalHash = ''0'', createdAt = 10\<rparr>]"
  unfolding crafted_first_eq derived_first_eq crafted_second_eq derived_second_eq by simp

text \<open>
  Claim C8, amended. A successful finalize appends exactly one audit record, made of the
  identifier, the two hashes and the clock reading, after the records already there. Two
  successful finalizations of the same identifier with no request between them leave the
  earlier records as they were, append two records, and the two carry the same original
  hash: the file a finalize reads as the original is not the file it writes, and no file
  an upload has stored is ever the file a finalize writes.
\<close>

theorem refinalize_appends_records:
  assumes "finalize_pdf e t1 s pid fs1 = (s1, Finalized url1 oh1 fh1)"
      and "finalize_pdf e t2 s1 pid fs2 = (s2, Finalized url2 oh2 fh2)"
  shows "audits s2 = audits s @
           [\<lparr>pdfId = pid, originalHash = oh1, finalHash = fh1, createdAt = t1\<rparr>,
            \<lparr>pdfId = pid, originalHash = oh2, finalHash = fh2, createdAt = t2\<rparr>] \<and>
         oh1 = oh2 \<and>
         files s2 (path_join (ORIGINAL_DIR e) (pid @ ''.pdf'')) =
           files s (path_join (ORIGINAL_DIR e) (pid @ ''.pdf'')) \<and>
         (\<forall>n. files s2 (path_join (ORIGINAL_DIR e) (to_decimal n @ ''.pdf'')) =
                files s (path_join (ORIGINAL_DIR e) (to_decimal n @ ''.pdf'')))"
proof -
  let ?P = "path_join (ORIGINAL_DIR e) (pid @ ''.pdf'')"
  from finalize_pdf_success [OF assms(1)] obtain b where
    a1: "audits s1 = audits s @ [\<lparr>pdfId = pid, originalHash = oh1, finalHash = fh1, createdAt = t1\<rparr>]"
    and b: "files s ?P = Some b" "oh1 = sha256 e b"
    by blast
  from finalize_pdf_success [OF assms(2)] obtain b' where
    a2: "audits s2 = audits s1 @ [\<lparr>pdfId = pid, originalHash = oh2, finalHash = fh2, createdAt = t2\<rparr>]"
    and b': "files s1 ?P = Some b'" "oh2 = sha256 e b'"
    by blast
  note k1 = finalize_pdf_keeps_files [OF assms(1)]
  note k2 = finalize_pdf_keeps_files [OF assms(2)]
  have "b' = b" using b(1) b'(1) k1(1) by simp
  then show ?thesis using a1 a2 b(2) b'(2) k1 k2 by simp
qed

lemma example_first_finalize:
  "\<exists>s1 url oh fh. finalize_pdf example_env 7 stored ''1'' [] = (s1, Finalized url oh fh)"
proof -
  have f: "files stored (path_join (ORIGINAL_DIR example_env) (''1'' @ ''.pdf'')) = Some [1, 2, 3]"
    unfolding example_paths by (simp add: stored_def empty_server_def)
  have "render_fields example_env blank_doc [] = Inr blank_doc" by simp
  from finalize_pdf_ok [OF f example_env_simps(1) this example_env_simps(2,3)]
  show ?thesis by blast
qed

lemma example_second_finalize:
  "\<exists>s2 url oh fh. finalize_pdf example_env 9 s1 ''1'' [example_field ''text'' ''Hello'' 1] =
      (s2, Finalized url oh fh)"
  if "files s1 (path_join (ORIGINAL_DIR example_env) (''1'' @ ''.pdf'')) = Some [1, 2, 3]" for s1
  using finalize_pdf_ok [OF that example_env_simps(1) example_text_ok example_env_simps(2,3)]
  by blast

theorem refinalize_appends_records_witness:
  "\<exists>s1 s2 url1 url2 oh fh1 fh2.
     finalize_pdf example_env 7 stored ''1'' [] = (s1, Finalized url1 oh fh1) \<and>
     finalize_pdf example_env 9 s1 ''1'' [example_field ''text'' ''Hello'' 1] = (s2, Finalized url2 oh fh2) \<and>
     audits s2 = audits stored @
       [\<lparr>pdfId = ''1'', originalHash = oh, finalHash = fh1, createdAt = 7\<rparr>,
        \<lparr>pdfId = ''1'', originalHash = oh, finalHash = fh2, createdAt = 9\<rparr>] \<and>
     files s2 (path_join (ORIGINAL_DIR example_env) (''1'' @ ''.pdf'')) = Some [1, 2, 3]"
proof -
  have f: "files stored (path_join (ORIGINAL_DIR example_env) (''1'' @ ''.pdf'')) = Some [1, 2, 3]"
    unfolding example_paths by (simp add: stored_def empty_server_def)
  obtain s1 url1 oh1 fh1 where
    h1: "finalize_pdf example_env 7 stored ''1'' [] = (s1, Finalized url1 oh1 fh1)"
    using example_first_finalize by blast
  have "files s1 (path_join (ORIGINAL_DIR example_env) (''1'' @ ''.pdf'')) = Some [1, 2, 3]"
    using finalize_pdf_keeps_files(1) [OF h1] f by simp
  then obtain s2 url2 oh2 fh2 where
    h2: "finalize_pdf example_env 9 s1 ''1'' [example_field ''text'' ''Hello'' 1] = (s2, Finalized url2 oh2 fh2)"
    using example_second_finalize by blast
  show ?thesis
    using h1 h2 f refinalize_appends_records [OF h1 h2] by auto
qed

section \<open>Upload identifiers\<close>

text \<open>
  Claim C9, at its failing input. Two uploads answered at the same clock reading are given
  the same identifier: the second response repeats the first, and the second buffer
  replaces the first under \<^verbatim>\<open>uploads/original/1700000000000.pdf\<close>, the only stored file.
\<close>

theorem upload_same_clock_reading_collides:
  "snd first_upload = Uploaded ''1700000000000'' ''http://localhost:5000/files/original/1700000000000.pdf'' \<and>
   snd second_upload = Uploaded ''1700000000000'' ''http://localhost:5000/files/original/1700000000000.pdf'' \<and>
   files (fst first_upload) [''app'', ''uploads'', ''original'', ''1700000000000.pdf''] = Some [1] \<and>
   files (fst second_upload) [''app'', ''uploads'', ''original'', ''1700000000000.pdf''] = Some [2] \<and>
   dom (files (fst second_upload)) = {[''app'', ''uploads'', ''original'', ''1700000000000.pdf'']}"
proof -
  have d: "to_decimal 1700000000000 = ''1700000000000''"
    by (simp add: to_decimal.simps digit_def)
  have p: "path_join (ORIGINAL_DIR example_env) (''1700000000000'' @ ''.pdf'') =
      [''app'', ''uploads'', ''original'', ''1700000000000.pdf'']"
    by (simp add: path_join_def ORIGINAL_DIR_def UPLOAD_DIR_def example_env_def enter_def)
  show ?thesis
    unfolding first_upload_def second_upload_def upload_pdf_def d Let_def p
    by (simp add: example_env_def empty_server_def)
qed

section \<open>The resolved rectangle\<close>

lemma example_literals:
  "js_literal (612 / 10) = Num (4306567143673037 / 70368744177664)"
  "js_literal (6732 / 10) = Num (2960764911275213 / 4398046511104)"
  "js_literal (1836 / 10) = Num (6459850715509555 / 35184372088832)"
  "js_literal (396 / 10) = Num (5573204538870989 / 140737488355328)"
  by code_simp+

text \<open>
  Claim C1 as stated fails in its example: on the page of 612 by 792 points the ratios
  0.1, 0.1, 0.3 and 0.05 give a \<open>y\<close> that is neither the number 673.2 nor the binary64 value
  the literal \<^verbatim>\<open>673.2\<close> denotes.
\<close>

theorem example_y_differs:
  "rect_y (resolve (example_field ''text'' ''Hello'' 1) (Num 612) (Num 792)) \<noteq> js_literal (6732 / 10) \<and>
   rect_y (resolve (example_field ''text'' ''Hello'' 1) (Num 612) (Num 792)) \<noteq> Num (6732 / 10)"
  unfolding example_rect example_literals by simp

text \<open>
  Claim C1, amended. The rectangle is \<open>x = xRatio * pageWidth\<close>,
  \<open>y = (pageHeight - yRatio * pageHeight) - hRatio * pageHeight\<close>, \<open>w = wRatio * pageWidth\<close> and
  \<open>h = hRatio * pageHeight\<close>, every operation being the binary64 one, and it is the same for
  every field type. On the page of 612 by 792 points the ratios 0.1, 0.1, 0.3 and 0.05 give
  the binary64 values of 61.2, 183.6 and 39.6 for \<open>x\<close>, \<open>w\<close> and \<open>h\<close>, and for \<open>y\<close> the value
  673.1999999999999, one unit in the last place below the binary64 value of 673.2.
\<close>

theorem resolve_formula:
  "resolve f pw ph =
     \<lparr>rect_x = js_mul (xRatio f) pw,
      rect_y = js_sub (js_sub ph (js_mul (yRatio f) ph)) (js_mul (hRatio f) ph),
      rect_w = js_mul (wRatio f) pw,
      rect_h = js_mul (hRatio f) ph\<rparr> \<and>
   resolve (f\<lparr>ftype := t\<rparr>) pw ph = resolve f pw ph \<and>
   resolve (example_field t v p) (Num 612) (Num 792) =
     \<lparr>rect_x = js_literal (612 / 10),
      rect_y = Num (5921529822550425 / 8796093022208),
      rect_w = js_literal (1836 / 10),
      rect_h = js_literal (396 / 10)\<rparr> \<and>
   js_literal (6732 / 10) = Num (5921529822550425 / 8796093022208 + 1 / 2 ^ 43) \<and>
   \<bar>5921529822550425 / 8796093022208 - 6732 / 10\<bar> < (1 / 10 ^ 13 :: rat)"
proof (intro conjI)
  show "js_literal (6732 / 10) = Num (5921529822550425 / 8796093022208 + 1 / 2 ^ 43)"
    unfolding example_literals by simp
  show "resolve (example_field t v p) (Num 612) (Num 792) =
     \<lparr>rect_x = js_literal (612 / 10),
      rect_y = Num (5921529822550425 / 8796093022208),
      rect_w = js_literal (1836 / 10),
      rect_h = js_literal (396 / 10)\<rparr>"
    unfolding example_literals by (rule example_rect)
qed (simp_all add: resolve_def)

section \<open>Bounds of the resolved rectangle\<close>

lemma min_normal_le: "min_normal \<le> 1 / 4"
proof -
  have "(2::rat) powi (- 1022) \<le> 2 powi (- 2)" by (rule two_powi_mono) simp
  then show ?thesis by (simp add: min_normal_def)
qed








section \<open>Aspect fit of a signature image\<close>

lemma wide_image_fit:
  "aspect_fit (resolve (example_field ''signature'' ''QUJD'' 1) (Num 612) (Num 792)) wide_image =
     \<lparr>image_x = Num (1076641785918259 / 17592186044416),
      image_y = Num (2976597878715187 / 4398046511104),
      image_width = Num (1614962678877389 / 8796093022208),
      image_height = Num (1139973655678157 / 35184372088832)\<rparr>"
  unfolding example_rect by code_simp

text \<open>
  Claim C3 as stated fails: the signature box of the field with ratios 0.1, 0.1, 0.3 and 0.05
  on the page of 612 by 792 points is 183.6 wide, and an image of 340 by 60 pixels is drawn
  into it 183.60000000000002 wide, wider than the box; the drawn width and height are not
  in the ratio 340 to 60 either.
\<close>

theorem wide_image_exceeds_box:
  "rect_w (resolve (example_field ''signature'' ''QUJD'' 1) (Num 612) (Num 792)) =
     Num (6459850715509555 / 35184372088832) \<and>
   image_width (aspect_fit (resolve (example_field ''signature'' ''QUJD'' 1) (Num 612) (Num 792)) wide_image) =
     Num (1614962678877389 / 8796093022208) \<and>
   image_height (aspect_fit (resolve (example_field ''signature'' ''QUJD'' 1) (Num 612) (Num 792)) wide_image) =
     Num (1139973655678157 / 35184372088832) \<and>
   \<not> js_le (image_width (aspect_fit (resolve (example_field ''signature'' ''QUJD'' 1) (Num 612) (Num 792)) wide_image))
      (rect_w (resolve (example_field ''signature'' ''QUJD'' 1) (Num 612) (Num 792))) \<and>
   (1614962678877389 / 8796093022208) / (1139973655678157 / 35184372088832) \<noteq> (340 / 60 :: rat)"
  unfolding wide_image_fit unfolding example_rect by simp

text \<open>
  Claim C3, amended. For a box of finite width \<open>w\<close> and height \<open>h\<close> and an image of finite
  dimensions \<open>imgWidth \<ge> 1\<close> and \<open>imgHeight \<ge> 1\<close>, with \<open>w / imgWidth\<close> and \<open>h / imgHeight\<close> in the
  range of the normal binary64 numbers, the image is drawn with
  \<open>scale = min (w / imgWidth) (h / imgHeight)\<close>, \<open>drawW = imgWidth * scale\<close>,
  \<open>drawH = imgHeight * scale\<close>, \<open>drawX = x + (w - drawW) / 2\<close> and \<open>drawY = y + (h - drawH) / 2\<close>,
  every operation being the binary64 one. Consequently \<open>drawW \<le> w (1 + 2\<^sup>-\<^sup>5\<^sup>1)\<close>,
  \<open>drawH \<le> h (1 + 2\<^sup>-\<^sup>5\<^sup>1)\<close>, and \<open>drawW / drawH\<close> differs from \<open>imgWidth / imgHeight\<close> by at most the
  relative error \<open>2\<^sup>-\<^sup>5\<^sup>1\<close>. An image of 200 by 100 in a box with \<open>w = h = 100\<close> gives
  \<open>scale = 0.5\<close>, \<open>drawW = 100\<close>, \<open>drawH = 50\<close> and the vertical offset 25.
\<close>

theorem aspect_fit_within_rounding:
  assumes box: "rect_w r = Num w" "rect_h r = Num h"
      and img: "img_width img = Num iw" "img_height img = Num ih"
      and iw: "1 \<le> iw" and ih: "1 \<le> ih"
      and w: "min_normal * iw \<le> w" "w \<le> 2 ^ 1023"
      and h: "min_normal * ih \<le> h" "h \<le> 2 ^ 1023"
  shows "\<exists>scale drawW drawH.
           scale = min (fl (w / iw)) (fl (h / ih)) \<and>
           drawW = fl (iw * scale) \<and> drawH = fl (ih * scale) \<and>
           fit_scale r img = Num scale \<and>
           aspect_fit r img =
             \<lparr>image_x = js_add (rect_x r) (js_div (js_sub (Num w) (Num drawW)) (Num 2)),
              image_y = js_add (rect_y r) (js_div (js_sub (Num h) (Num drawH)) (Num 2)),
              image_width = Num drawW,
              image_height = Num drawH\<rparr> \<and>
           drawW \<le> w * (1 + 1 / 2 ^ 51) \<and>
           drawH \<le> h * (1 + 1 / 2 ^ 51) \<and>
           \<bar>drawW * ih - drawH * iw\<bar> \<le> drawH * iw / 2 ^ 51"
proof -
  define s where "s = min (fl (w / iw)) (fl (h / ih))"
  define dw where "dw = fl (iw * s)"
  define dh where "dh = fl (ih * s)"
  have ipos: "0 < iw" "0 < ih" using iw ih by simp_all
  have q1: "min_normal \<le> w / iw" using w(1) ipos by (simp add: pos_le_divide_eq)
  have q2: "min_normal \<le> h / ih" using h(1) ipos by (simp add: pos_le_divide_eq)
  have "fl min_normal \<le> fl (w / iw)" "fl min_normal \<le> fl (h / ih)"
    using q1 q2 by (auto intro: fl_mono)
  then have s_lo: "min_normal \<le> s" by (simp add: s_def fl_min_normal)
  have s_le: "s \<le> fl (w / iw)" "s \<le> fl (h / ih)" by (simp_all add: s_def)
  note Wf = fit_side [OF iw w s_lo s_le(1), folded dw_def]
  note Hf = fit_side [OF ih h s_lo s_le(2), folded dh_def]
  have scale: "fit_scale r img = Num s"
    by (simp add: fit_scale_def box img Wf(1) Hf(1) js_min_Num s_def) (use ipos in auto)
  have fit: "aspect_fit r img =
             \<lparr>image_x = js_add (rect_x r) (js_div (js_sub (Num w) (Num dw)) (Num 2)),
              image_y = js_add (rect_y r) (js_div (js_sub (Num h) (Num dh)) (Num 2)),
              image_width = Num dw,
              image_height = Num dh\<rparr>"
    by (simp add: aspect_fit_def scale box img Wf(2) Hf(2) Let_def)
  have spos: "0 < s" using s_lo min_normal_pos by linarith
  define P where "P = iw * ih * s"
  have Ppos: "0 \<le> P" using ipos spos by (simp add: P_def)
  have "\<bar>dw - iw * s\<bar> * ih \<le> (iw * s / 2 ^ 53) * ih"
    using Wf(3) ipos by (intro mult_right_mono) simp_all
  then have e1: "\<bar>(dw - iw * s) * ih\<bar> \<le> P / 2 ^ 53"
    using ipos by (simp add: abs_mult P_def mult.commute mult.left_commute)
  have "\<bar>dh - ih * s\<bar> * iw \<le> (ih * s / 2 ^ 53) * iw"
    using Hf(3) ipos by (intro mult_right_mono) simp_all
  then have e2: "\<bar>(dh - ih * s) * iw\<bar> \<le> P / 2 ^ 53"
    using ipos by (simp add: abs_mult P_def mult.commute mult.left_commute)
  have d1: "(dw - iw * s) * ih = dw * ih - P" by (simp add: P_def algebra_simps)
  have d2: "(dh - ih * s) * iw = dh * iw - P" by (simp add: P_def algebra_simps)
  have ratio: "\<bar>dw * ih - dh * iw\<bar> \<le> dh * iw / 2 ^ 51"
    using e1 e2 Ppos unfolding d1 d2 by (rule ratio_aux)
  show ?thesis
    using scale fit Wf(4) Hf(4) ratio s_def dw_def dh_def by blast
qed

theorem aspect_fit_within_rounding_witness:
  "fit_scale square_rect landscape_image = Num (1 / 2) \<and>
   aspect_fit square_rect landscape_image =
     \<lparr>image_x = Num 0, image_y = Num 25, image_width = Num 100, image_height = Num 50\<rparr> \<and>
   (100 :: rat) \<le> 100 * (1 + 1 / 2 ^ 51) \<and>
   (50 :: rat) \<le> 100 * (1 + 1 / 2 ^ 51) \<and>
   \<bar>100 * 100 - 50 * 200\<bar> \<le> (50 * 200 / 2 ^ 51 :: rat)"
proof -
  have m: "min_normal * 200 \<le> 100" "min_normal * 100 \<le> 100"
    using min_normal_le min_normal_pos by linarith+
  have b: "(100 :: rat) \<le> 2 ^ 1023" by simp
  have "\<exists>scale drawW drawH.
           scale = min (fl (100 / 200)) (fl (100 / 100)) \<and>
           drawW = fl (200 * scale) \<and> drawH = fl (100 * scale) \<and>
           fit_scale square_rect landscape_image = Num scale \<and>
           aspect_fit square_rect landscape_image =
             \<lparr>image_x = js_add (rect_x square_rect) (js_div (js_sub (Num 100) (Num drawW)) (Num 2)),
              image_y = js_add (rect_y square_rect) (js_div (js_sub (Num 100) (Num drawH)) (Num 2)),
              image_width = Num drawW,
              image_height = Num drawH\<rparr> \<and>
           drawW \<le> 100 * (1 + 1 / 2 ^ 51) \<and>
           drawH \<le> 100 * (1 + 1 / 2 ^ 51) \<and>
           \<bar>drawW * 100 - drawH * 200\<bar> \<le> drawH * 200 / 2 ^ 51"
    by (rule aspect_fit_within_rounding) (simp_all add: square_rect_def landscape_image_def m b)
  then obtain scale drawW drawH where
    s: "scale = min (fl (100 / 200)) (fl (100 / 100))" and
    dw: "drawW = fl (200 * scale)" and dh: "drawH = fl (100 * scale)" and
    fs: "fit_scale square_rect landscape_image = Num scale" and
    af: "aspect_fit square_rect landscape_image =
             \<lparr>image_x = js_add (rect_x square_rect) (js_div (js_sub (Num 100) (Num drawW)) (Num 2)),
              image_y = js_add (rect_y square_rect) (js_div (js_sub (Num 100) (Num drawH)) (Num 2)),
              image_width = Num drawW,
              image_height = Num drawH\<rparr>" and
    bw: "drawW \<le> 100 * (1 + 1 / 2 ^ 51)" and
    bh: "drawH \<le> 100 * (1 + 1 / 2 ^ 51)" and
    br: "\<bar>drawW * 100 - drawH * 200\<bar> \<le> drawH * 200 / 2 ^ 51"
    by blast
  have f: "fl (100 / 200) = 1 / 2" "fl (100 / 100) = 1" "fl (200 * (1 / 2)) = 100"
    "fl (100 * (1 / 2)) = 50"
    by code_simp+
  have s1: "scale = 1 / 2" unfolding s f by simp
  have dw1: "drawW = 100" unfolding dw s1 by (rule f(3))
  have dh1: "drawH = 50" unfolding dh s1 by (rule f(4))
  have o: "js_add (rect_x square_rect) (js_div (js_sub (Num 100) (Num 100)) (Num 2)) = Num 0"
    "js_add (rect_y square_rect) (js_div (js_sub (Num 100) (Num 50)) (Num 2)) = Num 25"
    by code_simp+
  show ?thesis
    using fs af bw bh br unfolding s1 dw1 dh1 o by simp
qed

end
